theory Spec2Isabelle
  imports Main
begin

section \<open>Data model of the connection pool\<close>

text \<open>
  The pool of package \<open>pool\<close> is modelled sequentially: every exported operation is one
  atomic step on the pool value, which is what the mutex \<open>mu\<close> arranges for the counters.
  The three ways in which a call of the Go code can end are kept apart: it returns
  (\<open>Done\<close>), it waits on a channel that no later step of the same caller can serve
  (\<open>Blocked\<close>), or it calls a method on a nil interface value (\<open>Panicked\<close>).

  A \<open>net.Conn\<close> is an interface value: \<open>None\<close> is the nil interface, \<open>Some c\<close> the live
  connection with identity \<open>c\<close>.
\<close>

text \<open>
  Go's \<open>int\<close> is taken to be 64 bits wide, as on every 64-bit platform. A value of that
  type is an integer between \<open>minInt\<close> and \<open>maxInt\<close>; \<open>x++\<close> and \<open>x--\<close> wrap around in
  two's complement, which \<open>incr\<close> and \<open>decr\<close> write out.
\<close>

definition minInt :: int where
  "minInt = - (2 ^ 63)"

definition maxInt :: int where
  "maxInt = 2 ^ 63 - 1"

definition wrapInt :: "int \<Rightarrow> int" where
  "wrapInt x = (x + 2 ^ 63) mod 2 ^ 64 - 2 ^ 63"

definition incr :: "int \<Rightarrow> int" where
  "incr x = wrapInt (x + 1)"

definition decr :: "int \<Rightarrow> int" where
  "decr x = wrapInt (x - 1)"

text \<open>
  \<open>make(chan T, n)\<close> panics ("makechan: size out of range") when \<open>n\<close> elements of \<open>T\<close>
  take more than the runtime's allocation limit less the channel header, which is
  \<open>2 ^ 48 - 96\<close> bytes on a 64-bit platform. A \<open>net.Conn\<close> is an interface value of 16
  bytes and a \<open>bool\<close> is one byte, so the channel of connections has the smaller limit.
  Memory is taken to be sufficient for every channel within the limit.
\<close>

definition maxChanCap :: int where
  "maxChanCap = (2 ^ 48 - 96) div 16"

type_synonym conn = nat

type_synonym net_Conn = "conn option"

text \<open>
  The value pair \<open>(conn, err)\<close> of one call of the factory, and the error value of one
  call of \<open>net.Conn.Close\<close> (\<open>None\<close> is the nil error). Both come from the transport and are
  arguments of the operation that makes the call.
\<close>

type_synonym fres = "net_Conn \<times> string option"

type_synonym cres = "string option"

datatype error =
    ErrClosed
  | ErrNil
  | ErrInvalidCapacity
  | ErrFill string
  | ErrMoreThanMaxCap
  | ErrNilConnection
  | Foreign string

datatype 'a res = Done 'a | Blocked | Panicked

record Config =
  Network :: string
  Address :: string
  InitCap :: int
  MaxCap :: int
  WaitTimeout :: int
  IdleTimeout :: int

text \<open>
  The fields of \<open>Pool\<close>. The two channels are buffered with capacity \<open>MaxCap\<close>:
  \<open>conns\<close> is the list of buffered values, oldest first, and \<open>None\<close> once the field is nil;
  \<open>remainingSpace\<close> is the number of buffered tokens. \<open>factory\<close> records whether the field
  is non-nil. The last two fields are not fields of the Go struct: \<open>closedLog\<close> lists the
  connections on which \<open>net.Conn.Close\<close> has been called, latest first, and \<open>borrowed\<close>
  lists the connections handed to callers and not yet given back or destroyed.
\<close>

record Pool =
  conns :: "net_Conn list option"
  factory :: bool
  config :: Config
  idleConns :: int
  createNum :: int
  remainingSpace :: nat
  closedLog :: "conn list"
  borrowed :: "conn list"

record GConn =
  Conn :: net_Conn
  unusable :: bool

section \<open>Channel primitives\<close>

definition chanCap :: "Pool \<Rightarrow> nat" where
  "chanCap p = nat (MaxCap (config p))"

text \<open>\<open>p.remainingSpace <- true\<close>: waits while the buffer is full.\<close>

definition addRemainingSpace :: "Pool \<Rightarrow> Pool option" where
  "addRemainingSpace p =
     (if remainingSpace p < chanCap p
      then Some (p\<lparr>remainingSpace := Suc (remainingSpace p)\<rparr>)
      else None)"

text \<open>\<open><-p.remainingSpace\<close>: waits while the buffer is empty.\<close>

definition removeRemainingSpace :: "Pool \<Rightarrow> Pool option" where
  "removeRemainingSpace p =
     (if 0 < remainingSpace p
      then Some (p\<lparr>remainingSpace := remainingSpace p - 1\<rparr>)
      else None)"

text \<open>\<open>conn.Close()\<close> on a live connection, as seen by the pool.\<close>

definition closeConn :: "conn \<Rightarrow> Pool \<Rightarrow> Pool" where
  "closeConn c p = p\<lparr>closedLog := c # closedLog p\<rparr>"

definition giveBack :: "conn \<Rightarrow> Pool \<Rightarrow> Pool" where
  "giveBack c p = p\<lparr>borrowed := remove1 c (borrowed p)\<rparr>"

definition connErr :: "cres \<Rightarrow> error option" where
  "connErr r = map_option Foreign r"

section \<open>Operations of the pool\<close>

text \<open>
  \<open>wrapConn\<close> reads \<open>conn.RemoteAddr()\<close> for its log entry, which dereferences a nil
  interface. \<open>handOut\<close> is \<open>return p.wrapConn(conn), nil\<close>: the wrapper goes to the
  caller, and its connection counts as borrowed from then on.
\<close>

definition wrapConn :: "net_Conn \<Rightarrow> GConn res" where
  "wrapConn conn =
     (case conn of
        None \<Rightarrow> Panicked
      | Some c \<Rightarrow> Done \<lparr>Conn = Some c, unusable = False\<rparr>)"

definition handOut :: "net_Conn \<Rightarrow> Pool \<Rightarrow> (error + GConn) res \<times> Pool" where
  "handOut conn p =
     (case conn of
        None \<Rightarrow> (Panicked, p)
      | Some c \<Rightarrow>
          (case wrapConn conn of
             Done g \<Rightarrow> (Done (Inr g), p\<lparr>borrowed := c # borrowed p\<rparr>)
           | Blocked \<Rightarrow> (Blocked, p)
           | Panicked \<Rightarrow> (Panicked, p)))"

text \<open>
  \<open>Return\<close>. The log entry of the nil branch reads \<open>conn.RemoteAddr()\<close> before the
  \<open>return\<close> statement is reached. The \<open>select\<close> with a \<open>default\<close> case sends when the
  buffer of \<open>conns\<close> has room and otherwise closes the connection.
\<close>

definition Return :: "net_Conn \<Rightarrow> cres \<Rightarrow> Pool \<Rightarrow> error option res \<times> Pool" where
  "Return conn r p =
     (case conn of
        None \<Rightarrow> (Panicked, p)
      | Some c \<Rightarrow>
          (case conns p of
             None \<Rightarrow> (Done (connErr r), giveBack c (closeConn c p))
           | Some q \<Rightarrow>
               if length q < chanCap p
               then (Done None,
                     giveBack c (p\<lparr>conns := Some (q @ [Some c]), idleConns := incr (idleConns p)\<rparr>))
               else (Done (connErr r), giveBack c (closeConn c p))))"

text \<open>
  The branch of \<open>Get\<close> and \<open>BlockingGet\<close> that has received \<open>conn\<close> from the idle
  channel, whose remaining buffer is \<open>q\<close>.
\<close>

definition takeIdle :: "net_Conn \<Rightarrow> net_Conn list \<Rightarrow> Pool \<Rightarrow> (error + GConn) res \<times> Pool" where
  "takeIdle conn q p =
     (case conn of
        None \<Rightarrow> (Done (Inl ErrClosed), p\<lparr>conns := Some q\<rparr>)
      | Some c \<Rightarrow> handOut (Some c) (p\<lparr>conns := Some q, idleConns := decr (idleConns p)\<rparr>))"

text \<open>
  \<open>Get\<close>. In the \<open>default\<close> branch the log entry reads \<open>conn.RemoteAddr()\<close> before
  \<open>err\<close> is looked at, and the token is taken after the factory has been called.
\<close>

definition Get :: "fres \<Rightarrow> Pool \<Rightarrow> (error + GConn) res \<times> Pool" where
  "Get fr p =
     (case conns p of
        None \<Rightarrow> (Done (Inl ErrNil), p)
      | Some q \<Rightarrow>
          (case q of
             conn # q' \<Rightarrow> takeIdle conn q' p
           | [] \<Rightarrow>
               (let p1 = p\<lparr>createNum := incr (createNum p)\<rparr> in
                if MaxCap (config p1) < createNum p1 then (Done (Inl ErrMoreThanMaxCap), p1)
                else if \<not> factory p then (Panicked, p1)
                else
                  (case fst fr of
                     None \<Rightarrow> (Panicked, p1)
                   | Some c \<Rightarrow>
                       (case removeRemainingSpace p1 of
                          None \<Rightarrow> (Blocked, p1)
                        | Some p2 \<Rightarrow>
                            (case snd fr of
                               Some e \<Rightarrow>
                                 (case addRemainingSpace p2 of
                                    None \<Rightarrow> (Blocked, p2)
                                  | Some p3 \<Rightarrow> (Done (Inl (Foreign e)), p3))
                             | None \<Rightarrow> handOut (Some c) p2))))))"

text \<open>
  \<open>BlockingGet\<close>. The \<open>select\<close> statement has three cases; the runtime picks one of
  those that can proceed. The argument \<open>sel\<close> is the runtime's pick: it is followed when
  that case can proceed, and otherwise the first case that can proceed is taken, so every
  behaviour of the statement is the behaviour for some \<open>sel\<close>. The context is \<open>Some e\<close> when
  \<open>ctx.Done()\<close> is closed and \<open>ctx.Err()\<close> is \<open>e\<close>, and \<open>None\<close> when it is nil or not done.
\<close>

datatype select_case = RecvConn | RecvSpace | CtxDone

definition canProceed :: "select_case \<Rightarrow> string option \<Rightarrow> net_Conn list \<Rightarrow> Pool \<Rightarrow> bool" where
  "canProceed s ctx q p =
     (case s of
        RecvConn \<Rightarrow> q \<noteq> []
      | RecvSpace \<Rightarrow> 0 < remainingSpace p
      | CtxDone \<Rightarrow> ctx \<noteq> None)"

definition selected :: "select_case \<Rightarrow> string option \<Rightarrow> net_Conn list \<Rightarrow> Pool \<Rightarrow> select_case option" where
  "selected sel ctx q p =
     (if canProceed sel ctx q p then Some sel
      else if canProceed RecvConn ctx q p then Some RecvConn
      else if canProceed RecvSpace ctx q p then Some RecvSpace
      else if canProceed CtxDone ctx q p then Some CtxDone
      else None)"

text \<open>
  The case of the \<open>select\<close> that has received a token from \<open>remainingSpace\<close>; it is
  entered only when a token is there.
\<close>

definition createBlocking :: "fres \<Rightarrow> Pool \<Rightarrow> (error + GConn) res \<times> Pool" where
  "createBlocking fr p =
     (let p1 = p\<lparr>remainingSpace := remainingSpace p - 1\<rparr>;
          p2 = p1\<lparr>createNum := incr (createNum p1)\<rparr> in
      if \<not> factory p then (Panicked, p2)
      else
        (case snd fr of
           Some e \<Rightarrow>
             (case addRemainingSpace p2 of
                None \<Rightarrow> (Blocked, p2)
              | Some p3 \<Rightarrow> (Done (Inl (Foreign e)), p3))
         | None \<Rightarrow> handOut (fst fr) p2))"

definition BlockingGet :: "select_case \<Rightarrow> string option \<Rightarrow> fres \<Rightarrow> Pool \<Rightarrow> (error + GConn) res \<times> Pool" where
  "BlockingGet sel ctx fr p =
     (case conns p of
        None \<Rightarrow> (Done (Inl ErrNil), p)
      | Some q \<Rightarrow>
          (case selected sel ctx q p of
             None \<Rightarrow> (Blocked, p)
           | Some RecvConn \<Rightarrow>
               (case q of
                  [] \<Rightarrow> (Blocked, p)
                | conn # q' \<Rightarrow> takeIdle conn q' p)
           | Some RecvSpace \<Rightarrow> createBlocking fr p
           | Some CtxDone \<Rightarrow>
               (case ctx of
                  None \<Rightarrow> (Blocked, p)
                | Some e \<Rightarrow> (Done (Inl (Foreign e)), p))))"

text \<open>
  \<open>Close\<close>. The loop \<open>for conn := range conns\<close> over the closed channel receives the
  buffered values in order; \<open>conn.Close()\<close> on a nil value panics, and the send on
  \<open>remainingSpace\<close> waits while that buffer is full.
\<close>

fun drain :: "net_Conn list \<Rightarrow> Pool \<Rightarrow> unit res \<times> Pool" where
  "drain [] p = (Done (), p)"
| "drain (conn # q) p =
     (case conn of
        None \<Rightarrow> (Panicked, p)
      | Some c \<Rightarrow>
          (case addRemainingSpace (closeConn c p) of
             None \<Rightarrow> (Blocked, closeConn c p)
           | Some p' \<Rightarrow> drain q p'))"

definition Close :: "Pool \<Rightarrow> unit res \<times> Pool" where
  "Close p =
     (let p1 = p\<lparr>conns := None, factory := False\<rparr> in
      case conns p of
        None \<Rightarrow> (Done (), p1)
      | Some q \<Rightarrow> drain q p1)"

text \<open>\<open>Len\<close> is \<open>len(conns)\<close>, which is 0 for a nil channel; \<open>Idle\<close> reads the counter.\<close>

definition Len :: "Pool \<Rightarrow> int" where
  "Len p = (case conns p of None \<Rightarrow> 0 | Some q \<Rightarrow> int (length q))"

definition Idle :: "Pool \<Rightarrow> int" where
  "Idle p = idleConns p"

text \<open>
  \<open>New\<close>. After the check of the capacities the two channels are made, which panics
  for a \<open>MaxCap\<close> beyond the limit of the first one. The first loop sends \<open>MaxCap\<close> tokens; the second loop runs \<open>InitCap\<close>
  times, the \<open>i\<close>-th round calling the factory (\<open>dial i\<close> is what that call returns),
  taking a token, and either giving up (\<open>Close\<close>, one token back, error) or setting
  \<open>createNum\<close> and sending the connection on \<open>conns\<close>. That send is a plain send: it
  waits while the buffer is full or the channel is nil.
\<close>

definition newPool :: "Config \<Rightarrow> Pool" where
  "newPool pc =
     \<lparr>conns = Some [], factory = True, config = pc, idleConns = InitCap pc, createNum = 0,
      remainingSpace = 0, closedLog = [], borrowed = []\<rparr>"

fun fillSpace :: "nat \<Rightarrow> Pool \<Rightarrow> Pool option" where
  "fillSpace 0 p = Some p"
| "fillSpace (Suc n) p =
     (case addRemainingSpace p of
        None \<Rightarrow> None
      | Some p' \<Rightarrow> fillSpace n p')"

definition sendConn :: "net_Conn \<Rightarrow> Pool \<Rightarrow> Pool option" where
  "sendConn conn p =
     (case conns p of
        None \<Rightarrow> None
      | Some q \<Rightarrow> if length q < chanCap p then Some (p\<lparr>conns := Some (q @ [conn])\<rparr>) else None)"

definition giveUp :: "string \<Rightarrow> Pool \<Rightarrow> (error + Pool) res" where
  "giveUp e p =
     (case Close p of
        (Done u, p') \<Rightarrow>
          (case addRemainingSpace p' of
             None \<Rightarrow> Blocked
           | Some p'' \<Rightarrow> Done (Inl (ErrFill e)))
      | (Blocked, p') \<Rightarrow> Blocked
      | (Panicked, p') \<Rightarrow> Panicked)"

fun fillConns :: "(nat \<Rightarrow> fres) \<Rightarrow> nat \<Rightarrow> nat \<Rightarrow> Pool \<Rightarrow> (error + Pool) res" where
  "fillConns dial i 0 p = Done (Inr p)"
| "fillConns dial i (Suc k) p =
     (case removeRemainingSpace p of
        None \<Rightarrow> Blocked
      | Some p1 \<Rightarrow>
          (case snd (dial i) of
             Some e \<Rightarrow> giveUp e p1
           | None \<Rightarrow>
               (case sendConn (fst (dial i)) (p1\<lparr>createNum := InitCap (config p1)\<rparr>) of
                  None \<Rightarrow> Blocked
                | Some p2 \<Rightarrow> fillConns dial (Suc i) k p2)))"

definition New :: "(nat \<Rightarrow> fres) \<Rightarrow> Config \<Rightarrow> (error + Pool) res" where
  "New dial pc =
     (if InitCap pc < 0 \<or> MaxCap pc < 0 \<or> MaxCap pc < InitCap pc
      then Done (Inl ErrInvalidCapacity)
      else if maxChanCap < MaxCap pc then Panicked
      else
        (case fillSpace (nat (MaxCap pc)) (newPool pc) of
           None \<Rightarrow> Blocked
         | Some p \<Rightarrow> fillConns dial 0 (nat (InitCap pc)) p))"

section \<open>Operations of the wrapped connection\<close>

text \<open>
  Both methods of \<open>GConn\<close> start with a log entry that reads \<open>g.Conn.RemoteAddr()\<close>, so
  \<open>g.Conn\<close> is not nil in what follows. \<open>MarkUnusable\<close> changes the wrapper only.
  \<open>Close\<close> of an unusable wrapper sends a token and then closes the connection; otherwise
  it is \<open>Return\<close> on the pool.
\<close>

definition MarkUnusable :: "GConn \<Rightarrow> GConn res" where
  "MarkUnusable g =
     (case Conn g of
        None \<Rightarrow> Panicked
      | Some c \<Rightarrow> Done (g\<lparr>unusable := True\<rparr>))"

definition GConn_Close :: "GConn \<Rightarrow> cres \<Rightarrow> Pool \<Rightarrow> error option res \<times> Pool" where
  "GConn_Close g r p =
     (case Conn g of
        None \<Rightarrow> (Panicked, p)
      | Some c \<Rightarrow>
          if unusable g
          then
            (case addRemainingSpace p of
               None \<Rightarrow> (Blocked, p)
             | Some p1 \<Rightarrow> (Done (connErr r), giveBack c (closeConn c p1)))
          else Return (Conn g) r p)"

section \<open>Sequences of calls\<close>

text \<open>
  A caller's calls on one pool, each with what the transport answers during that call.
  \<open>exec\<close> is the pool after the call, whatever way the call ended.
\<close>

datatype call =
    CallGet fres
  | CallBlockingGet select_case "string option" fres
  | CallReturn net_Conn cres
  | CallClose
  | CallGConnClose GConn cres

fun exec :: "call \<Rightarrow> Pool \<Rightarrow> Pool" where
  "exec (CallGet fr) p = snd (Get fr p)"
| "exec (CallBlockingGet sel ctx fr) p = snd (BlockingGet sel ctx fr p)"
| "exec (CallReturn conn r) p = snd (Return conn r p)"
| "exec CallClose p = snd (Close p)"
| "exec (CallGConnClose g r) p = snd (GConn_Close g r p)"

definition execs :: "call list \<Rightarrow> Pool \<Rightarrow> Pool" where
  "execs cs p = fold exec cs p"

section \<open>Accounting of connections and tokens\<close>

text \<open>
  \<open>liveTotal\<close> is the number of idle connections plus the number of borrowed ones plus
  the number of free tokens. A factory call keeps its contract when it does not return
  a nil connection together with a nil error. A call is a proper use of the pool when its
  factory keeps the contract and the connection it gives back, if any, is a borrowed one.
\<close>

definition liveTotal :: "Pool \<Rightarrow> int" where
  "liveTotal p = Len p + int (length (borrowed p)) + int (remainingSpace p)"

definition noNilIdle :: "Pool \<Rightarrow> bool" where
  "noNilIdle p = (case conns p of None \<Rightarrow> True | Some q \<Rightarrow> None \<notin> set q)"

definition openHasFactory :: "Pool \<Rightarrow> bool" where
  "openHasFactory p = (case conns p of None \<Rightarrow> True | Some q \<Rightarrow> factory p)"

definition accounted :: "Pool \<Rightarrow> bool" where
  "accounted p = (noNilIdle p \<and> openHasFactory p \<and> liveTotal p = MaxCap (config p))"

definition dialOK :: "fres \<Rightarrow> bool" where
  "dialOK fr = (fst fr \<noteq> None \<or> snd fr \<noteq> None)"

definition isBorrowed :: "net_Conn \<Rightarrow> Pool \<Rightarrow> bool" where
  "isBorrowed conn p = (case conn of None \<Rightarrow> True | Some c \<Rightarrow> c \<in> set (borrowed p))"

fun proper :: "call \<Rightarrow> Pool \<Rightarrow> bool" where
  "proper (CallGet fr) p = dialOK fr"
| "proper (CallBlockingGet sel ctx fr) p = dialOK fr"
| "proper (CallReturn conn r) p = isBorrowed conn p"
| "proper CallClose p = True"
| "proper (CallGConnClose g r) p = isBorrowed (Conn g) p"

text \<open>The calls that end in \<open>Return\<close> with a live connection.\<close>

fun returnsConn :: "call \<Rightarrow> bool" where
  "returnsConn (CallReturn conn r) = (conn \<noteq> None)"
| "returnsConn (CallGConnClose g r) = (Conn g \<noteq> None \<and> \<not> unusable g)"
| "returnsConn c = False"

text \<open>
  On an open pool the counter \<open>idleConns\<close> is meant to be the length of the idle channel.
\<close>

definition idleMirrors :: "Pool \<Rightarrow> bool" where
  "idleMirrors p =
     (case conns p of
        None \<Rightarrow> True
      | Some q \<Rightarrow>
          None \<notin> set q \<and> idleConns p = int (length q) \<and> int (length q) \<le> MaxCap (config p)
          \<and> MaxCap (config p) \<le> maxInt)"

section \<open>Concrete pools\<close>

definition exConfig :: "int \<Rightarrow> int \<Rightarrow> Config" where
  "exConfig i m =
     \<lparr>Network = ''tcp'', Address = ''127.0.0.1:6379'', InitCap = i, MaxCap = m,
      WaitTimeout = 0, IdleTimeout = 0\<rparr>"

text \<open>A factory whose \<open>i\<close>-th call succeeds with connection \<open>i\<close>.\<close>

definition dialConn :: "nat \<Rightarrow> fres" where
  "dialConn i = (Some i, None)"

text \<open>The pool that \<open>New\<close> builds from \<open>exConfig i m\<close> with that factory.\<close>

definition exPool :: "int \<Rightarrow> int \<Rightarrow> Pool" where
  "exPool i m =
     \<lparr>conns = Some (map Some [0..<nat i]), factory = True, config = exConfig i m,
      idleConns = i, createNum = i, remainingSpace = nat (m - i), closedLog = [],
      borrowed = []\<rparr>"

section \<open>Basic facts\<close>

lemma wrapInt_id: "minInt \<le> x \<Longrightarrow> x \<le> maxInt \<Longrightarrow> wrapInt x = x"
  by (simp add: wrapInt_def minInt_def maxInt_def)

lemma wrapInt_range: "minInt \<le> wrapInt x \<and> wrapInt x \<le> maxInt"
proof -
  have "0 \<le> (x + 2 ^ 63) mod 2 ^ 64" "(x + 2 ^ 63) mod 2 ^ 64 < (2 ^ 64 :: int)"
    by simp_all
  then show ?thesis unfolding wrapInt_def minInt_def maxInt_def by simp
qed

lemma incr_plain: "minInt \<le> x \<Longrightarrow> x < maxInt \<Longrightarrow> incr x = x + 1"
  by (simp add: incr_def wrapInt_id)

lemma decr_plain: "minInt < x \<Longrightarrow> x \<le> maxInt \<Longrightarrow> decr x = x - 1"
  by (simp add: decr_def wrapInt_id)

lemma incr_maxInt: "incr maxInt = minInt"
  by (simp add: incr_def wrapInt_def minInt_def maxInt_def)

lemma incr_neq: "incr x \<noteq> x"
proof
  assume a: "incr x = x"
  with wrapInt_range [of "x + 1"] have r: "minInt \<le> x" "x \<le> maxInt"
    by (simp_all add: incr_def)
  show False
  proof (cases "x = maxInt")
    case True
    with a incr_maxInt show False by (simp add: minInt_def maxInt_def)
  next
    case False
    with r have "incr x = x + 1" by (intro incr_plain) simp_all
    with a show False by simp
  qed
qed

lemma incr_len: "int n < maxInt \<Longrightarrow> incr (int n) = 1 + int n"
  by (simp add: incr_plain minInt_def)

lemma decr_len: "1 + int n \<le> maxInt \<Longrightarrow> decr (1 + int n) = int n"
  by (simp add: decr_plain minInt_def)

lemma incr_small: "incr 0 = 1" "incr 1 = 2" "incr 2 = 3"
  by (simp_all add: incr_def wrapInt_def)

lemma maxChanCap_small:
  "\<not> maxChanCap < 1" "\<not> maxChanCap < 2" "\<not> maxChanCap < 3"
  "1 \<le> maxChanCap" "2 \<le> maxChanCap" "3 \<le> maxChanCap"
  by (simp_all add: maxChanCap_def)

lemma maxChanCap_int: "0 \<le> maxChanCap \<and> maxChanCap < maxInt"
  by (simp add: maxChanCap_def maxInt_def)

lemma handOut_Some:
  "handOut (Some c) p = (Done (Inr \<lparr>Conn = Some c, unusable = False\<rparr>), p\<lparr>borrowed := c # borrowed p\<rparr>)"
  by (simp add: handOut_def wrapConn_def)

lemma handOut_None: "handOut None p = (Panicked, p)"
  by (simp add: handOut_def)

lemma drain_fields:
  "conns (snd (drain q p)) = conns p \<and> factory (snd (drain q p)) = factory p
   \<and> config (snd (drain q p)) = config p \<and> createNum (snd (drain q p)) = createNum p
   \<and> idleConns (snd (drain q p)) = idleConns p \<and> borrowed (snd (drain q p)) = borrowed p"
  by (induction q arbitrary: p)
     (auto simp: addRemainingSpace_def closeConn_def split: option.splits)

lemma drain_all:
  "remainingSpace p + length cs \<le> chanCap p \<Longrightarrow>
   drain (map Some cs) p =
     (Done (), p\<lparr>remainingSpace := remainingSpace p + length cs,
                 closedLog := rev cs @ closedLog p\<rparr>)"
proof (induction cs arbitrary: p)
  case Nil
  then show ?case by simp
next
  case (Cons c cs)
  let ?p' = "(closeConn c p)\<lparr>remainingSpace := Suc (remainingSpace p)\<rparr>"
  from Cons.prems have add: "addRemainingSpace (closeConn c p) = Some ?p'"
    by (simp add: addRemainingSpace_def closeConn_def chanCap_def)
  from Cons.prems have "remainingSpace ?p' + length cs \<le> chanCap ?p'"
    by (simp add: closeConn_def chanCap_def)
  from Cons.IH [OF this] add show ?case
    by (simp add: closeConn_def)
qed

lemma Close_closed: "conns (snd (Close p)) = None \<and> factory (snd (Close p)) = False"
  by (simp add: Close_def Let_def drain_fields split: option.splits)

lemma Close_again: "conns p = None \<Longrightarrow> \<not> factory p \<Longrightarrow> Close p = (Done (), p)"
  by (simp add: Close_def)

lemma exec_config: "config (exec c p) = config p"
  apply (cases c)
  apply (auto simp: Get_def BlockingGet_def Return_def Close_def GConn_Close_def takeIdle_def
       handOut_def wrapConn_def createBlocking_def addRemainingSpace_def removeRemainingSpace_def
       giveBack_def closeConn_def Let_def drain_fields
       split: option.splits list.splits select_case.splits if_splits)
  done

lemma exec_closed: "conns p = None \<Longrightarrow> conns (exec c p) = None"
  apply (cases c)
  apply (auto simp: Get_def BlockingGet_def Return_def Close_def GConn_Close_def 
       addRemainingSpace_def 
       giveBack_def closeConn_def Let_def 
       split: option.splits)
  done

lemma execs_closed: "conns p = None \<Longrightarrow> conns (execs cs p) = None"
  unfolding execs_def by (induction cs arbitrary: p) (simp_all add: exec_closed)

lemma execs_config: "config (execs cs p) = config p"
  unfolding execs_def by (induction cs arbitrary: p) (simp_all add: exec_config)

lemma fillSpace_ok:
  "remainingSpace p + n \<le> chanCap p \<Longrightarrow>
   fillSpace n p = Some (p\<lparr>remainingSpace := remainingSpace p + n\<rparr>)"
proof (induction n arbitrary: p)
  case 0
  then show ?case by simp
next
  case (Suc n)
  let ?p' = "p\<lparr>remainingSpace := Suc (remainingSpace p)\<rparr>"
  from Suc.prems have add: "addRemainingSpace p = Some ?p'"
    by (simp add: addRemainingSpace_def)
  from Suc.prems have "remainingSpace ?p' + n \<le> chanCap ?p'"
    by (simp add: chanCap_def)
  from Suc.IH [OF this] add show ?case by simp
qed

lemma New_no_prefill:
  "InitCap pc = 0 \<Longrightarrow> 0 \<le> MaxCap pc \<Longrightarrow> MaxCap pc \<le> maxChanCap \<Longrightarrow>
   New dial pc = Done (Inr ((newPool pc)\<lparr>remainingSpace := nat (MaxCap pc)\<rparr>))"
  by (simp add: New_def fillSpace_ok chanCap_def newPool_def)

lemma giveUp_not_pool: "giveUp e p \<noteq> Done (Inr p')"
  by (simp add: giveUp_def split: prod.splits res.splits option.splits)

lemma fillConns_Done:
  "fillConns dial i k p = Done (Inr p') \<Longrightarrow> conns p = Some q \<Longrightarrow>
   p' = p\<lparr>conns := Some (q @ map (\<lambda>j. fst (dial j)) [i..<i + k]),
          createNum := (if k = 0 then createNum p else InitCap (config p)),
          remainingSpace := remainingSpace p - k\<rparr>
   \<and> k \<le> remainingSpace p
   \<and> list_all (\<lambda>j. snd (dial j) = None) [i..<i + k]"
proof (induction k arbitrary: i p q)
  case 0
  then show ?case by simp
next
  case (Suc k)
  from Suc.prems(1) obtain p1 where rem: "removeRemainingSpace p = Some p1"
    by (auto split: option.splits)
  then have pos: "0 < remainingSpace p"
    and p1: "p1 = p\<lparr>remainingSpace := remainingSpace p - 1\<rparr>"
    by (auto simp: removeRemainingSpace_def split: if_splits)
  from Suc.prems(1) rem have noerr: "snd (dial i) = None"
    by (auto simp: giveUp_not_pool split: option.splits)
  let ?p1' = "p1\<lparr>createNum := InitCap (config p1)\<rparr>"
  from Suc.prems(1) rem noerr obtain p2 where
    send: "sendConn (fst (dial i)) ?p1' = Some p2" and rest: "fillConns dial (Suc i) k p2 = Done (Inr p')"
    by (auto split: option.splits)
  from send Suc.prems(2) p1 have p2: "p2 = ?p1'\<lparr>conns := Some (q @ [fst (dial i)])\<rparr>"
    by (auto simp: sendConn_def split: if_splits)
  then have c2: "conns p2 = Some (q @ [fst (dial i)])" by simp
  from Suc.IH [OF rest c2] have
    a: "p' = p2\<lparr>conns := Some ((q @ [fst (dial i)]) @ map (\<lambda>j. fst (dial j)) [Suc i..<Suc i + k]),
          createNum := (if k = 0 then createNum p2 else InitCap (config p2)),
          remainingSpace := remainingSpace p2 - k\<rparr>"
    and b: "k \<le> remainingSpace p2"
    and c: "list_all (\<lambda>j. snd (dial j) = None) [Suc i..<Suc i + k]"
    by simp_all
  have upt: "[i..<Suc (i + k)] = i # [Suc i..<Suc (i + k)]"
    by (simp add: upt_conv_Cons del: upt_Suc)
  from a p2 p1 have "p' = p\<lparr>conns := Some (q @ map (\<lambda>j. fst (dial j)) [i..<i + Suc k]),
          createNum := (if Suc k = 0 then createNum p else InitCap (config p)),
          remainingSpace := remainingSpace p - Suc k\<rparr>"
    by (simp add: upt del: upt_Suc)
  moreover from b p2 p1 pos have "Suc k \<le> remainingSpace p" by simp
  moreover from c noerr have "list_all (\<lambda>j. snd (dial j) = None) [i..<i + Suc k]"
    by (simp add: upt del: upt_Suc)
  ultimately show ?case by simp
qed

lemma New_Done:
  assumes "New dial pc = Done (Inr p)"
  shows "p = \<lparr>conns = Some (map (\<lambda>j. fst (dial j)) [0..<nat (InitCap pc)]), factory = True,
              config = pc, idleConns = InitCap pc, createNum = InitCap pc,
              remainingSpace = nat (MaxCap pc) - nat (InitCap pc), closedLog = [],
              borrowed = []\<rparr>
    \<and> 0 \<le> InitCap pc \<and> InitCap pc \<le> MaxCap pc \<and> MaxCap pc \<le> maxChanCap
    \<and> list_all (\<lambda>j. snd (dial j) = None) [0..<nat (InitCap pc)]"
proof -
  from assms have caps: "0 \<le> InitCap pc" "0 \<le> MaxCap pc" "InitCap pc \<le> MaxCap pc"
    "MaxCap pc \<le> maxChanCap"
    by (auto simp: New_def split: if_splits)
  let ?p0 = "(newPool pc)\<lparr>remainingSpace := nat (MaxCap pc)\<rparr>"
  have "fillSpace (nat (MaxCap pc)) (newPool pc) = Some ?p0"
    using fillSpace_ok [of "newPool pc" "nat (MaxCap pc)"]
    by (simp add: newPool_def chanCap_def)
  with assms caps have fc: "fillConns dial 0 (nat (InitCap pc)) ?p0 = Done (Inr p)"
    by (simp add: New_def)
  have "conns ?p0 = Some []" by (simp add: newPool_def)
  from fillConns_Done [OF fc this] caps show ?thesis
    by (auto simp: newPool_def)
qed

lemma selected_canProceed: "selected sel ctx q p = Some s \<Longrightarrow> canProceed s ctx q p"
  by (auto simp: selected_def split: if_splits)


lemma fillConns_ok:
  "list_all (\<lambda>j. snd (dial j) = None) [i..<i + k] \<Longrightarrow> k \<le> remainingSpace p \<Longrightarrow>
   conns p = Some q \<Longrightarrow> length q + k \<le> chanCap p \<Longrightarrow>
   fillConns dial i k p =
     Done (Inr (p\<lparr>conns := Some (q @ map (\<lambda>j. fst (dial j)) [i..<i + k]),
          createNum := (if k = 0 then createNum p else InitCap (config p)),
          remainingSpace := remainingSpace p - k\<rparr>))"
proof (induction k arbitrary: i p q)
  case 0
  then show ?case by simp
next
  case (Suc k)
  have upt: "[i..<Suc (i + k)] = i # [Suc i..<Suc (i + k)]"
    by (simp add: upt_conv_Cons del: upt_Suc)
  let ?p1 = "p\<lparr>remainingSpace := remainingSpace p - 1\<rparr>"
  let ?p2 = "?p1\<lparr>createNum := InitCap (config p), conns := Some (q @ [fst (dial i)])\<rparr>"
  from Suc.prems(2) have rem: "removeRemainingSpace p = Some ?p1"
    by (simp add: removeRemainingSpace_def)
  from Suc.prems(1) have noerr: "snd (dial i) = None"
    and rest: "list_all (\<lambda>j. snd (dial j) = None) [Suc i..<Suc i + k]"
    by (simp_all add: upt del: upt_Suc)
  from Suc.prems(3,4) have send:
    "sendConn (fst (dial i)) (?p1\<lparr>createNum := InitCap (config ?p1)\<rparr>) = Some ?p2"
    by (simp add: sendConn_def chanCap_def)
  from Suc.prems(2) have k: "k \<le> remainingSpace ?p2" by simp
  have c2: "conns ?p2 = Some (q @ [fst (dial i)])" by simp
  from Suc.prems(4) have cap: "length (q @ [fst (dial i)]) + k \<le> chanCap ?p2"
    by (simp add: chanCap_def)
  from Suc.IH [OF rest k c2 cap] rem noerr send show ?case
    by (simp add: upt del: upt_Suc)
qed

lemma New_ok:
  assumes "0 \<le> InitCap pc" and "InitCap pc \<le> MaxCap pc" and "MaxCap pc \<le> maxChanCap"
    and "list_all (\<lambda>j. snd (dial j) = None) [0..<nat (InitCap pc)]"
  shows "New dial pc =
     Done (Inr \<lparr>conns = Some (map (\<lambda>j. fst (dial j)) [0..<nat (InitCap pc)]), factory = True,
              config = pc, idleConns = InitCap pc, createNum = InitCap pc,
              remainingSpace = nat (MaxCap pc) - nat (InitCap pc), closedLog = [],
              borrowed = []\<rparr>)"
proof -
  let ?p0 = "(newPool pc)\<lparr>remainingSpace := nat (MaxCap pc)\<rparr>"
  have fs: "fillSpace (nat (MaxCap pc)) (newPool pc) = Some ?p0"
    using fillSpace_ok [of "newPool pc" "nat (MaxCap pc)"]
    by (simp add: newPool_def chanCap_def)
  have "fillConns dial 0 (nat (InitCap pc)) ?p0 =
     Done (Inr (?p0\<lparr>conns := Some ([] @ map (\<lambda>j. fst (dial j)) [0..<0 + nat (InitCap pc)]),
          createNum := (if nat (InitCap pc) = 0 then createNum ?p0 else InitCap (config ?p0)),
          remainingSpace := remainingSpace ?p0 - nat (InitCap pc)\<rparr>))"
    using assms by (intro fillConns_ok) (simp_all add: newPool_def chanCap_def)
  with fs assms(1,2,3) show ?thesis
    by (auto simp: New_def newPool_def)
qed

lemma Get_over_cap:
  "conns p = Some [] \<Longrightarrow> MaxCap (config p) < incr (createNum p) \<Longrightarrow>
   Get fr p = (Done (Inl ErrMoreThanMaxCap), p\<lparr>createNum := incr (createNum p)\<rparr>)"
  by (simp add: Get_def Let_def)

lemma Get_creates:
  "conns p = Some [] \<Longrightarrow> incr (createNum p) \<le> MaxCap (config p) \<Longrightarrow> factory p \<Longrightarrow>
   0 < remainingSpace p \<Longrightarrow>
   Get (Some c, None) p =
     (Done (Inr \<lparr>Conn = Some c, unusable = False\<rparr>),
      p\<lparr>createNum := incr (createNum p), remainingSpace := remainingSpace p - 1,
        borrowed := c # borrowed p\<rparr>)"
  by (simp add: Get_def Let_def removeRemainingSpace_def handOut_Some)

lemma createBlocking_ok:
  "factory p \<Longrightarrow> 0 < remainingSpace p \<Longrightarrow>
   createBlocking (Some c, None) p =
     (Done (Inr \<lparr>Conn = Some c, unusable = False\<rparr>),
      p\<lparr>remainingSpace := remainingSpace p - 1, createNum := incr (createNum p),
        borrowed := c # borrowed p\<rparr>)"
  by (simp add: createBlocking_def Let_def handOut_Some)

lemma createBlocking_err:
  "factory p \<Longrightarrow> 0 < remainingSpace p \<Longrightarrow> remainingSpace p \<le> chanCap p \<Longrightarrow>
   createBlocking (conn, Some e) p = (Done (Inl (Foreign e)), p\<lparr>createNum := incr (createNum p)\<rparr>)"
  by (simp add: createBlocking_def Let_def addRemainingSpace_def chanCap_def)

lemma BlockingGet_space:
  "conns p = Some q \<Longrightarrow> selected sel ctx q p = Some RecvSpace \<Longrightarrow>
   BlockingGet sel ctx fr p = createBlocking fr p"
  by (simp add: BlockingGet_def)

lemma selected_RecvSpace: "0 < remainingSpace p \<Longrightarrow> selected RecvSpace ctx q p = Some RecvSpace"
  by (simp add: selected_def canProceed_def)

lemma selected_only_space:
  "0 < remainingSpace p \<Longrightarrow> selected sel None [] p = Some RecvSpace"
  by (cases sel) (simp_all add: selected_def canProceed_def)

lemma borrowed_room:
  "c \<in> set (borrowed p) \<Longrightarrow> liveTotal p \<le> MaxCap (config p) \<Longrightarrow> remainingSpace p < chanCap p"
proof -
  assume "c \<in> set (borrowed p)"
  then have "1 \<le> int (length (borrowed p))" by (cases "borrowed p") auto
  moreover have "0 \<le> Len p" by (simp add: Len_def split: option.splits)
  moreover assume "liveTotal p \<le> MaxCap (config p)"
  ultimately show ?thesis unfolding liveTotal_def chanCap_def by linarith
qed

lemma exec_createNum_step:
  "createNum (exec c p) = createNum p \<or> createNum (exec c p) = incr (createNum p)"
  by (cases c)
     (auto simp: Get_def BlockingGet_def Return_def Close_def GConn_Close_def takeIdle_def
       handOut_def wrapConn_def createBlocking_def addRemainingSpace_def removeRemainingSpace_def
       giveBack_def closeConn_def Let_def drain_fields
       split: option.splits list.splits select_case.splits if_splits)

lemma exec_createNum_bounds:
  assumes "minInt \<le> createNum p" and "createNum p < maxInt"
  shows "createNum p \<le> createNum (exec c p) \<and> createNum (exec c p) \<le> createNum p + 1"
  using exec_createNum_step [of c p] incr_plain [OF assms] by auto

lemma execs_createNum_bounds:
  "minInt \<le> createNum p \<Longrightarrow> createNum p + int (length cs) \<le> maxInt \<Longrightarrow>
   createNum p \<le> createNum (execs cs p)
   \<and> createNum (execs cs p) \<le> createNum p + int (length cs)"
  unfolding execs_def
proof (induction cs arbitrary: p)
  case Nil
  then show ?case by simp
next
  case (Cons c cs)
  from Cons.prems have lt: "createNum p < maxInt" by simp
  note b = exec_createNum_bounds [OF Cons.prems(1) lt, of c]
  from b Cons.prems have "minInt \<le> createNum (exec c p)"
    and "createNum (exec c p) + int (length cs) \<le> maxInt"
    by simp_all
  from Cons.IH [OF this] b show ?case by simp
qed

lemma exec_createNum_same:
  "createNum (exec (CallReturn conn r) p) = createNum p"
  "createNum (exec CallClose p) = createNum p"
  "createNum (exec (CallGConnClose g r) p) = createNum p"
  by (auto simp: Return_def Close_def GConn_Close_def giveBack_def closeConn_def
      addRemainingSpace_def Let_def drain_fields split: option.splits)

lemma accounted_open:
  "conns p = Some q \<Longrightarrow>
   accounted p \<longleftrightarrow>
     None \<notin> set q \<and> factory p \<and> 0 \<le> MaxCap (config p)
     \<and> length q + length (borrowed p) + remainingSpace p = chanCap p"
  unfolding accounted_def liveTotal_def Len_def noNilIdle_def openHasFactory_def chanCap_def
  by (simp only: option.case) linarith

lemma accounted_closed:
  "conns p = None \<Longrightarrow>
   accounted p \<longleftrightarrow>
     0 \<le> MaxCap (config p) \<and> length (borrowed p) + remainingSpace p = chanCap p"
  unfolding accounted_def liveTotal_def Len_def noNilIdle_def openHasFactory_def chanCap_def
  by (simp only: option.case simp_thms) linarith


lemma accounted_Get:
  assumes "accounted p" and "dialOK fr"
  shows "accounted (snd (Get fr p))"
proof (cases "conns p")
  case None
  with assms show ?thesis by (simp add: Get_def)
next
  case (Some q)
  note acc = assms(1) [unfolded accounted_open [OF Some]]
  show ?thesis
  proof (cases q)
    case (Cons conn q')
    with acc obtain c where c: "conn = Some c" by (cases conn) auto
    let ?p' = "p\<lparr>conns := Some q', idleConns := decr (idleConns p), borrowed := c # borrowed p\<rparr>"
    from Some Cons c have g: "snd (Get fr p) = ?p'"
      by (simp add: Get_def takeIdle_def handOut_Some)
    have "conns ?p' = Some q'" by simp
    from accounted_open [OF this] acc Cons show ?thesis
      unfolding g by (simp add: chanCap_def)
  next
    case Nil
    let ?p1 = "p\<lparr>createNum := incr (createNum p)\<rparr>"
    have c1: "conns ?p1 = Some []" using Some Nil by simp
    from acc Nil have a1: "accounted ?p1"
      unfolding accounted_open [OF c1] by (simp add: chanCap_def)
    show ?thesis
    proof (cases "MaxCap (config p) < incr (createNum p) \<or> fst fr = None \<or> remainingSpace p = 0")
      case True
      with Some Nil acc a1 show ?thesis
        by (auto simp: Get_def Let_def removeRemainingSpace_def split: option.splits)
    next
      case False
      then obtain c where c: "fst fr = Some c" by auto
      let ?p2 = "?p1\<lparr>remainingSpace := remainingSpace p - 1\<rparr>"
      from False have rem: "removeRemainingSpace ?p1 = Some ?p2"
        by (simp add: removeRemainingSpace_def)
      show ?thesis
      proof (cases "snd fr")
        case None
        let ?p3 = "?p2\<lparr>borrowed := c # borrowed p\<rparr>"
        from Some Nil acc False c rem None have g: "snd (Get fr p) = ?p3"
          by (simp add: Get_def Let_def handOut_Some)
        have "conns ?p3 = Some []" using Some Nil by simp
        from accounted_open [OF this] acc Nil False show ?thesis
          unfolding g by (simp add: chanCap_def; arith)
      next
        case (Some e)
        from acc False have "addRemainingSpace ?p2 = Some ?p1"
          by (simp add: addRemainingSpace_def chanCap_def; arith)
        with \<open>conns p = Some q\<close> Nil acc False c rem Some have g: "snd (Get fr p) = ?p1"
          by (simp add: Get_def Let_def)
        with a1 show ?thesis by simp
      qed
    qed
  qed
qed


lemma accounted_takeIdle:
  assumes "accounted p" and "conns p = Some (conn # q)"
  shows "accounted (snd (takeIdle conn q p))"
proof -
  note acc = assms(1) [unfolded accounted_open [OF assms(2)]]
  then obtain c where c: "conn = Some c" by (cases conn) auto
  let ?p' = "p\<lparr>conns := Some q, idleConns := decr (idleConns p), borrowed := c # borrowed p\<rparr>"
  from c have g: "snd (takeIdle conn q p) = ?p'"
    by (simp add: takeIdle_def handOut_Some)
  have "conns ?p' = Some q" by simp
  from accounted_open [OF this] acc show ?thesis
    unfolding g by (simp add: chanCap_def)
qed

lemma accounted_createBlocking:
  assumes "accounted p" and "dialOK fr" and "conns p = Some q" and "0 < remainingSpace p"
  shows "accounted (snd (createBlocking fr p))"
proof -
  note acc = assms(1) [unfolded accounted_open [OF assms(3)]]
  let ?p2 = "p\<lparr>remainingSpace := remainingSpace p - 1, createNum := incr (createNum p)\<rparr>"
  show ?thesis
  proof (cases "snd fr")
    case (Some e)
    from acc assms(4) have "addRemainingSpace ?p2 = Some (p\<lparr>createNum := incr (createNum p)\<rparr>)"
      by (simp add: addRemainingSpace_def chanCap_def; arith)
    with acc Some have g: "snd (createBlocking fr p) = p\<lparr>createNum := incr (createNum p)\<rparr>"
      by (simp add: createBlocking_def Let_def)
    have "conns (p\<lparr>createNum := incr (createNum p)\<rparr>) = Some q" using assms(3) by simp
    from accounted_open [OF this] acc show ?thesis
      unfolding g by (simp add: chanCap_def)
  next
    case None
    with assms(2) obtain c where c: "fst fr = Some c" by (auto simp: dialOK_def)
    let ?p3 = "?p2\<lparr>borrowed := c # borrowed p\<rparr>"
    from acc None c have g: "snd (createBlocking fr p) = ?p3"
      by (simp add: createBlocking_def Let_def handOut_Some)
    have "conns ?p3 = Some q" using assms(3) by simp
    from accounted_open [OF this] acc assms(4) show ?thesis
      unfolding g by (simp add: chanCap_def; arith)
  qed
qed

lemma accounted_BlockingGet:
  assumes "accounted p" and "dialOK fr"
  shows "accounted (snd (BlockingGet sel ctx fr p))"
proof (cases "conns p")
  case None
  with assms show ?thesis by (simp add: BlockingGet_def)
next
  case (Some q)
  show ?thesis
  proof (cases "selected sel ctx q p")
    case None
    with Some assms show ?thesis by (simp add: BlockingGet_def)
  next
    case sel: (Some s)
    note can = selected_canProceed [OF sel]
    show ?thesis
    proof (cases s)
      case RecvConn
      with can obtain conn q' where q: "q = conn # q'"
        by (cases q) (auto simp: canProceed_def)
      with Some assms(1) have "accounted (snd (takeIdle conn q' p))"
        by (intro accounted_takeIdle) simp_all
      with Some sel RecvConn q show ?thesis by (simp add: BlockingGet_def)
    next
      case RecvSpace
      with can have "0 < remainingSpace p" by (simp add: canProceed_def)
      with assms Some have "accounted (snd (createBlocking fr p))"
        by (intro accounted_createBlocking)
      with Some sel RecvSpace show ?thesis by (simp add: BlockingGet_def)
    next
      case CtxDone
      with Some sel assms show ?thesis by (simp add: BlockingGet_def split: option.splits)
    qed
  qed
qed

lemma accounted_Return_open:
  assumes "accounted p" and "c \<in> set (borrowed p)" and "conns p = Some q"
  shows "accounted (snd (Return (Some c) r p))"
proof -
  note acc = assms(1) [unfolded accounted_open [OF assms(3)]]
  from assms(2) have pos: "0 < length (borrowed p)" by (rule length_pos_if_in_set)
  with acc have room: "length q < chanCap p" by arith
  let ?p' = "p\<lparr>conns := Some (q @ [Some c]), idleConns := incr (idleConns p),
               borrowed := remove1 c (borrowed p)\<rparr>"
  from assms(3) room have g: "snd (Return (Some c) r p) = ?p'"
    by (simp add: Return_def giveBack_def)
  have "conns ?p' = Some (q @ [Some c])" by simp
  from accounted_open [OF this] acc assms(2) pos show ?thesis
    unfolding g by (simp add: chanCap_def length_remove1; arith)
qed

lemma liveTotal_Return_closed:
  assumes "accounted p" and "c \<in> set (borrowed p)" and "conns p = None"
  shows "liveTotal (snd (Return (Some c) r p)) = MaxCap (config p) - 1"
proof -
  note acc = assms(1) [unfolded accounted_closed [OF assms(3)]]
  from assms(2) have pos: "0 < length (borrowed p)" by (rule length_pos_if_in_set)
  from assms(3) have g: "snd (Return (Some c) r p) =
      p\<lparr>closedLog := c # closedLog p, borrowed := remove1 c (borrowed p)\<rparr>"
    by (simp add: Return_def giveBack_def closeConn_def)
  from acc assms(2,3) pos show ?thesis
    unfolding g liveTotal_def Len_def chanCap_def by (simp add: length_remove1; arith)
qed

lemma accounted_Close: 
  assumes "accounted p"
  shows "accounted (snd (Close p))"
proof (cases "conns p")
  case None
  let ?p1 = "p\<lparr>conns := None, factory := False\<rparr>"
  have "conns ?p1 = None" by simp
  from accounted_closed [OF this] assms [unfolded accounted_closed [OF None]] None show ?thesis
    by (simp add: Close_def chanCap_def)
next
  case (Some q)
  note acc = assms [unfolded accounted_open [OF Some]]
  then have "None \<notin> set q" by simp
  then obtain cs where cs: "q = map Some cs"
    by (metis ex_map_conv not_Some_eq)
  let ?p1 = "p\<lparr>conns := None, factory := False\<rparr>"
  let ?p2 = "?p1\<lparr>remainingSpace := remainingSpace p + length cs,
                     closedLog := rev cs @ closedLog p\<rparr>"
  from acc cs have "remainingSpace ?p1 + length cs \<le> chanCap ?p1"
    by (simp add: chanCap_def)
  from drain_all [OF this] Some cs have g: "snd (Close p) = ?p2"
    by (simp add: Close_def)
  have "conns ?p2 = None" by simp
  from accounted_closed [OF this] acc cs show ?thesis
    unfolding g by (simp add: chanCap_def)
qed

lemma accounted_GConn_Close_unusable:
  assumes "accounted p" and "c \<in> set (borrowed p)" and "Conn g = Some c" and "unusable g"
  shows "accounted (snd (GConn_Close g r p))"
proof -
  from assms(2) have pos: "0 < length (borrowed p)" by (rule length_pos_if_in_set)
  from assms(1) have "liveTotal p \<le> MaxCap (config p)" by (simp add: accounted_def)
  with assms(2) have room: "remainingSpace p < chanCap p" by (rule borrowed_room)
  let ?p' = "p\<lparr>remainingSpace := Suc (remainingSpace p), closedLog := c # closedLog p,
               borrowed := remove1 c (borrowed p)\<rparr>"
  from assms(3,4) room have g: "snd (GConn_Close g r p) = ?p'"
    by (simp add: GConn_Close_def addRemainingSpace_def giveBack_def closeConn_def)
  show ?thesis
  proof (cases "conns p")
    case None
    then have "conns ?p' = None" by simp
    from accounted_closed [OF this] assms(1) [unfolded accounted_closed [OF None]] assms(2) pos
    show ?thesis unfolding g by (simp add: chanCap_def length_remove1; arith)
  next
    case (Some q)
    then have "conns ?p' = Some q" by simp
    from accounted_open [OF this] assms(1) [unfolded accounted_open [OF Some]] assms(2) pos
    show ?thesis unfolding g by (simp add: chanCap_def length_remove1; arith)
  qed
qed

lemma New_accounted:
  assumes "New dial pc = Done (Inr p)"
    and "list_all (\<lambda>j. dialOK (dial j)) [0..<nat (InitCap pc)]"
  shows "accounted p"
proof -
  note n = New_Done [OF assms(1)]
  from n have errs: "list_all (\<lambda>j. snd (dial j) = None) [0..<nat (InitCap pc)]" by simp
  with assms(2) have nonil: "None \<notin> set (map (\<lambda>j. fst (dial j)) [0..<nat (InitCap pc)])"
    by (auto simp: list_all_iff dialOK_def)
  from n have c: "conns p = Some (map (\<lambda>j. fst (dial j)) [0..<nat (InitCap pc)])"
    by simp
  from n have f: "factory p" "config p = pc" "borrowed p = []"
    "remainingSpace p = nat (MaxCap pc) - nat (InitCap pc)"
    by simp_all
  from n nonil show ?thesis
    unfolding accounted_open [OF c] f by (simp add: chanCap_def f; arith)
qed

lemma idleMirrors_order:
  "idleMirrors p \<Longrightarrow> conns p = Some q \<Longrightarrow>
   0 \<le> Idle p \<and> Idle p \<le> Len p \<and> Len p \<le> MaxCap (config p)"
  by (simp add: idleMirrors_def Idle_def Len_def)

lemma New_idleMirrors:
  assumes "New dial pc = Done (Inr p)"
    and "list_all (\<lambda>j. dialOK (dial j)) [0..<nat (InitCap pc)]"
  shows "idleMirrors p"
proof -
  note n = New_Done [OF assms(1)]
  from n have "list_all (\<lambda>j. snd (dial j) = None) [0..<nat (InitCap pc)]" by simp
  with assms(2) have "None \<notin> set (map (\<lambda>j. fst (dial j)) [0..<nat (InitCap pc)])"
    by (auto simp: list_all_iff dialOK_def)
  with n maxChanCap_int show ?thesis by (auto simp: idleMirrors_def)
qed

lemma idleMirrors_takeIdle:
  assumes "idleMirrors p" and "conns p = Some (conn # q)"
  shows "idleMirrors (snd (takeIdle conn q p))"
proof (cases conn)
  case None
  with assms show ?thesis by (simp add: idleMirrors_def)
next
  case (Some c)
  from assms have m: "None \<notin> set q" "idleConns p = 1 + int (length q)"
    "1 + int (length q) \<le> MaxCap (config p)" "MaxCap (config p) \<le> maxInt"
    by (simp_all add: idleMirrors_def)
  from m(3,4) have "decr (1 + int (length q)) = int (length q)"
    by (intro decr_len) simp
  with m Some show ?thesis
    by (simp add: idleMirrors_def takeIdle_def handOut_Some)
qed

lemma idleMirrors_Return:
  assumes "idleMirrors p"
  shows "idleMirrors (snd (Return conn r p))"
proof (cases conn)
  case None
  with assms show ?thesis by (simp add: Return_def)
next
  case c: (Some c)
  show ?thesis
  proof (cases "conns p")
    case None
    with c show ?thesis by (simp add: Return_def idleMirrors_def giveBack_def closeConn_def)
  next
    case (Some q)
    with assms have m: "None \<notin> set q" "idleConns p = int (length q)"
      "int (length q) \<le> MaxCap (config p)" "MaxCap (config p) \<le> maxInt"
      by (auto simp: idleMirrors_def)
    show ?thesis
    proof (cases "length q < chanCap p")
      case True
      with m(4) have "int (length q) < maxInt" by (simp add: chanCap_def)
      then have "incr (int (length q)) = 1 + int (length q)" by (rule incr_len)
      with True m c Some show ?thesis
        by (simp add: Return_def idleMirrors_def giveBack_def chanCap_def; arith)
    next
      case False
      with m c Some show ?thesis
        by (simp add: Return_def idleMirrors_def giveBack_def closeConn_def)
    qed
  qed
qed

lemma exec_idleMirrors:
  assumes "idleMirrors p"
  shows "idleMirrors (exec c p)"
proof (cases "conns p")
  case None
  then have "conns (exec c p) = None" by (rule exec_closed)
  then show ?thesis by (simp add: idleMirrors_def)
next
  case (Some q)
  show ?thesis
  proof (cases c)
    case (CallGet fr)
    show ?thesis
    proof (cases q)
      case Nil
      with Some assms CallGet show ?thesis
        by (auto simp: idleMirrors_def Get_def Let_def handOut_Some removeRemainingSpace_def
            addRemainingSpace_def split: option.splits)
    next
      case (Cons conn q')
      with Some assms have "idleMirrors (snd (takeIdle conn q' p))"
        by (intro idleMirrors_takeIdle) simp_all
      with Some Cons CallGet show ?thesis by (simp add: Get_def)
    qed
  next
    case (CallBlockingGet sel ctx fr)
    show ?thesis
    proof (cases "selected sel ctx q p")
      case None
      with Some assms CallBlockingGet show ?thesis by (simp add: BlockingGet_def)
    next
      case sel: (Some s)
      note can = selected_canProceed [OF sel]
      show ?thesis
      proof (cases s)
        case RecvConn
        with can obtain conn q' where q: "q = conn # q'"
          by (cases q) (auto simp: canProceed_def)
        with Some assms have "idleMirrors (snd (takeIdle conn q' p))"
          by (intro idleMirrors_takeIdle) simp_all
        with Some sel RecvConn q CallBlockingGet show ?thesis by (simp add: BlockingGet_def)
      next
        case RecvSpace
        with Some sel assms CallBlockingGet show ?thesis
          by (cases "fst fr")
             (auto simp: BlockingGet_def idleMirrors_def createBlocking_def Let_def handOut_Some
               handOut_None addRemainingSpace_def split: option.splits)
      next
        case CtxDone
        with Some sel assms CallBlockingGet show ?thesis
          by (simp add: BlockingGet_def split: option.splits)
      qed
    qed
  next
    case (CallReturn conn r)
    with assms show ?thesis by (simp add: idleMirrors_Return)
  next
    case CallClose
    then have "conns (exec c p) = None" by (simp add: Close_closed)
    then show ?thesis by (simp add: idleMirrors_def)
  next
    case (CallGConnClose g r)
    show ?thesis
    proof (cases "Conn g \<noteq> None \<and> \<not> unusable g")
      case True
      with CallGConnClose idleMirrors_Return [OF assms, of "Conn g" r] show ?thesis
        by (auto simp: GConn_Close_def)
    next
      case False
      with CallGConnClose Some assms show ?thesis
        by (cases "Conn g")
           (auto simp: idleMirrors_def GConn_Close_def giveBack_def closeConn_def
             addRemainingSpace_def)
    qed
  qed
qed

lemma Get_two_then_over_cap:
  assumes "InitCap pc = 0" and "MaxCap pc = 2"
  shows "New dial pc = Done (Inr ((newPool pc)\<lparr>remainingSpace := 2\<rparr>))"
    and "fst (Get (Some c1, None) ((newPool pc)\<lparr>remainingSpace := 2\<rparr>))
          = Done (Inr \<lparr>Conn = Some c1, unusable = False\<rparr>)"
    and "fst (Get (Some c2, None) (snd (Get (Some c1, None) ((newPool pc)\<lparr>remainingSpace := 2\<rparr>))))
          = Done (Inr \<lparr>Conn = Some c2, unusable = False\<rparr>)"
    and "fst (Get fr (snd (Get (Some c2, None)
            (snd (Get (Some c1, None) ((newPool pc)\<lparr>remainingSpace := 2\<rparr>))))))
          = Done (Inl ErrMoreThanMaxCap)"
proof -
  let ?p0 = "(newPool pc)\<lparr>remainingSpace := 2\<rparr>"
  from assms show "New dial pc = Done (Inr ?p0)"
    using New_no_prefill [of pc dial] by (simp add: maxChanCap_small)
  from assms have g1: "Get (Some c1, None) ?p0 =
     (Done (Inr \<lparr>Conn = Some c1, unusable = False\<rparr>),
      ?p0\<lparr>createNum := 1, remainingSpace := 1, borrowed := [c1]\<rparr>)"
    using Get_creates [of ?p0 c1] by (simp add: newPool_def incr_small)
  from assms have g2: "Get (Some c2, None) (?p0\<lparr>createNum := 1, remainingSpace := 1, borrowed := [c1]\<rparr>) =
     (Done (Inr \<lparr>Conn = Some c2, unusable = False\<rparr>),
      ?p0\<lparr>createNum := 2, remainingSpace := 0, borrowed := [c2, c1]\<rparr>)"
    using Get_creates [of "?p0\<lparr>createNum := 1, remainingSpace := 1, borrowed := [c1]\<rparr>" c2]
    by (simp add: newPool_def incr_small)
  from assms have g3: "fst (Get fr (?p0\<lparr>createNum := 2, remainingSpace := 0, borrowed := [c2, c1]\<rparr>))
      = Done (Inl ErrMoreThanMaxCap)"
    using Get_over_cap [of "?p0\<lparr>createNum := 2, remainingSpace := 0, borrowed := [c2, c1]\<rparr>" fr]
    by (simp add: newPool_def incr_small)
  from g1 show "fst (Get (Some c1, None) ?p0) = Done (Inr \<lparr>Conn = Some c1, unusable = False\<rparr>)"
    by simp
  from g1 g2 show "fst (Get (Some c2, None) (snd (Get (Some c1, None) ?p0)))
          = Done (Inr \<lparr>Conn = Some c2, unusable = False\<rparr>)"
    by simp
  from g1 g2 g3 show "fst (Get fr (snd (Get (Some c2, None) (snd (Get (Some c1, None) ?p0)))))
          = Done (Inl ErrMoreThanMaxCap)"
    by simp
qed

lemma Get_over_cap_repeat:
  "conns p = Some [] \<Longrightarrow> MaxCap (config p) \<le> createNum p \<Longrightarrow> minInt \<le> createNum p \<Longrightarrow>
   createNum p + int n \<le> maxInt \<Longrightarrow>
   execs (replicate n (CallGet fr)) p = p\<lparr>createNum := createNum p + int n\<rparr>"
proof (induction n arbitrary: p)
  case 0
  then show ?case by (simp add: execs_def)
next
  case (Suc n)
  let ?p' = "p\<lparr>createNum := createNum p + 1\<rparr>"
  from Suc.prems have i: "incr (createNum p) = createNum p + 1"
    by (intro incr_plain) simp_all
  with Suc.prems have "Get fr p = (Done (Inl ErrMoreThanMaxCap), ?p')"
    using Get_over_cap [of p fr] by simp
  then have step: "exec (CallGet fr) p = ?p'" by simp
  from Suc.prems have "execs (replicate n (CallGet fr)) ?p' =
      ?p'\<lparr>createNum := createNum ?p' + int n\<rparr>"
    by (intro Suc.IH) simp_all
  with step show ?case by (simp add: execs_def add.assoc)
qed

section \<open>Results about the operations\<close>

text \<open>
  C1, as stated, fails. The pool built from \<open>InitCap = 0\<close>, \<open>MaxCap = 1\<close> hands out
  connection 0 by \<open>Get\<close> and is then closed: one connection is borrowed, none is idle, no
  token is free, and the sum is \<open>MaxCap = 1\<close>. \<open>Return\<close> of the borrowed connection finds
  the pool closed, closes the connection and sends no token: the sum is 0 afterwards.
\<close>

theorem C1_counterexample:
  "New dialConn (exConfig 0 1) = Done (Inr (exPool 0 1))
   \<and> execs [CallGet (Some 0, None), CallClose] (exPool 0 1) =
     (exPool 0 1)\<lparr>conns := None, factory := False, createNum := 1, remainingSpace := 0,
                   borrowed := [0]\<rparr>
   \<and> accounted ((exPool 0 1)\<lparr>conns := None, factory := False, createNum := 1,
                   remainingSpace := 0, borrowed := [0]\<rparr>)
   \<and> proper (CallReturn (Some 0) None)
        ((exPool 0 1)\<lparr>conns := None, factory := False, createNum := 1, remainingSpace := 0,
                     borrowed := [0]\<rparr>)
   \<and> liveTotal (exec (CallReturn (Some 0) None)
        ((exPool 0 1)\<lparr>conns := None, factory := False, createNum := 1, remainingSpace := 0,
                     borrowed := [0]\<rparr>)) = 0
   \<and> MaxCap (config (exec (CallReturn (Some 0) None)
        ((exPool 0 1)\<lparr>conns := None, factory := False, createNum := 1, remainingSpace := 0,
                     borrowed := [0]\<rparr>))) = 1
   \<and> \<not> accounted (exec (CallReturn (Some 0) None)
        ((exPool 0 1)\<lparr>conns := None, factory := False, createNum := 1, remainingSpace := 0,
                     borrowed := [0]\<rparr>))"
  by (simp add: New_def newPool_def chanCap_def addRemainingSpace_def maxChanCap_small
      incr_small execs_def exPool_def exConfig_def Get_def Let_def removeRemainingSpace_def
      handOut_Some Close_def Return_def giveBack_def closeConn_def accounted_def liveTotal_def
      Len_def noNilIdle_def openHasFactory_def isBorrowed_def)

text \<open>
  C1, amended. The number of idle connections plus the number of borrowed connections plus
  the number of free tokens is \<open>MaxCap\<close> in the pool that \<open>New\<close> returns (its factory
  keeping its contract) and stays \<open>MaxCap\<close> under every proper call, however the call ends,
  but one: a call that reaches \<open>Return\<close> with a live connection on a closed pool (\<open>Return\<close>
  itself, or \<open>Close\<close> of a wrapper that is not marked unusable) closes the connection
  without sending a token, and the sum is \<open>MaxCap - 1\<close> afterwards.
\<close>

theorem C1_accounting_amended:
  "(New dial pc = Done (Inr p0) \<and> list_all (\<lambda>j. dialOK (dial j)) [0..<nat (InitCap pc)] \<longrightarrow>
      accounted p0)
   \<and> (accounted p \<and> proper c p \<and> \<not> (conns p = None \<and> returnsConn c) \<longrightarrow>
      accounted (exec c p))
   \<and> (accounted p \<and> proper c p \<and> conns p = None \<and> returnsConn c \<longrightarrow>
      liveTotal (exec c p) = MaxCap (config p) - 1)"
proof (intro conjI impI)
  assume "New dial pc = Done (Inr p0) \<and> list_all (\<lambda>j. dialOK (dial j)) [0..<nat (InitCap pc)]"
  then show "accounted p0" by (blast intro: New_accounted)
next
  assume a: "accounted p \<and> proper c p \<and> \<not> (conns p = None \<and> returnsConn c)"
  then have acc: "accounted p" and prp: "proper c p"
    and opn: "\<not> (conns p = None \<and> returnsConn c)"
    by simp_all
  show "accounted (exec c p)"
  proof (cases c)
    case (CallGet fr)
    with acc prp show ?thesis by (simp add: accounted_Get)
  next
    case (CallBlockingGet sel ctx fr)
    with acc prp show ?thesis by (simp add: accounted_BlockingGet)
  next
    case (CallReturn conn r)
    show ?thesis
    proof (cases conn)
      case None
      with CallReturn acc show ?thesis by (simp add: Return_def)
    next
      case (Some x)
      with CallReturn opn obtain q where q: "conns p = Some q" by auto
      from prp CallReturn Some have "x \<in> set (borrowed p)" by (simp add: isBorrowed_def)
      from accounted_Return_open [OF acc this q] CallReturn Some show ?thesis by simp
    qed
  next
    case CallClose
    with acc show ?thesis by (simp add: accounted_Close)
  next
    case (CallGConnClose g r)
    show ?thesis
    proof (cases "Conn g")
      case None
      with CallGConnClose acc show ?thesis by (simp add: GConn_Close_def)
    next
      case (Some x)
      from prp CallGConnClose Some have b: "x \<in> set (borrowed p)" by (simp add: isBorrowed_def)
      show ?thesis
      proof (cases "unusable g")
        case True
        from accounted_GConn_Close_unusable [OF acc b Some True] CallGConnClose
        show ?thesis by simp
      next
        case False
        with CallGConnClose Some opn obtain q where q: "conns p = Some q" by auto
        from accounted_Return_open [OF acc b q] CallGConnClose Some False show ?thesis
          by (simp add: GConn_Close_def)
      qed
    qed
  qed
next
  assume a: "accounted p \<and> proper c p \<and> conns p = None \<and> returnsConn c"
  then have acc: "accounted p" and prp: "proper c p" and cl: "conns p = None"
    and rc: "returnsConn c"
    by simp_all
  show "liveTotal (exec c p) = MaxCap (config p) - 1"
  proof (cases c)
    case (CallReturn conn r)
    with rc obtain x where x: "conn = Some x" by auto
    with prp CallReturn have "x \<in> set (borrowed p)" by (simp add: isBorrowed_def)
    from liveTotal_Return_closed [OF acc this cl] CallReturn x show ?thesis by simp
  next
    case (CallGConnClose g r)
    with rc obtain x where x: "Conn g = Some x" and u: "\<not> unusable g" by auto
    with prp CallGConnClose have "x \<in> set (borrowed p)" by (simp add: isBorrowed_def)
    from liveTotal_Return_closed [OF acc this cl] CallGConnClose x u show ?thesis
      by (simp add: GConn_Close_def)
  qed (use rc in simp_all)
qed

text \<open>
  C1 (amended) at concrete pools: \<open>New\<close> with \<open>InitCap = 1\<close>, \<open>MaxCap = 2\<close> followed by a
  \<open>Get\<close>, and the \<open>Return\<close> on the closed pool of the counterexample.
\<close>

theorem C1_accounting_amended_witness:
  "New dialConn (exConfig 1 2) = Done (Inr (exPool 1 2))
   \<and> list_all (\<lambda>j. dialOK (dialConn j)) [0..<nat (InitCap (exConfig 1 2))]
   \<and> accounted (exPool 1 2)
   \<and> proper (CallGet (Some 5, None)) (exPool 1 2)
   \<and> conns (exPool 1 2) \<noteq> None
   \<and> accounted (exec (CallGet (Some 5, None)) (exPool 1 2))
   \<and> accounted ((exPool 0 1)\<lparr>conns := None, factory := False, createNum := 1,
                   remainingSpace := 0, borrowed := [0]\<rparr>)
   \<and> proper (CallReturn (Some 0) None)
        ((exPool 0 1)\<lparr>conns := None, factory := False, createNum := 1, remainingSpace := 0,
                     borrowed := [0]\<rparr>)
   \<and> returnsConn (CallReturn (Some 0) None)
   \<and> liveTotal (exec (CallReturn (Some 0) None)
        ((exPool 0 1)\<lparr>conns := None, factory := False, createNum := 1, remainingSpace := 0,
                     borrowed := [0]\<rparr>)) = 0"
proof -
  let ?pc = "(exPool 0 1)\<lparr>conns := None, factory := False, createNum := 1,
                   remainingSpace := 0, borrowed := [0]\<rparr>"
  have new: "New dialConn (exConfig 1 2) = Done (Inr (exPool 1 2))"
    by (simp add: New_def exConfig_def exPool_def newPool_def dialConn_def chanCap_def
        addRemainingSpace_def removeRemainingSpace_def sendConn_def numeral_2_eq_2
        maxChanCap_small)
  have ok: "list_all (\<lambda>j. dialOK (dialConn j)) [0..<nat (InitCap (exConfig 1 2))]"
    by (simp add: dialOK_def dialConn_def exConfig_def)
  have pr: "proper (CallGet (Some 5, None)) (exPool 1 2)" by (simp add: dialOK_def)
  have opn: "conns (exPool 1 2) \<noteq> None" by (simp add: exPool_def)
  have acc2: "accounted ?pc"
    by (simp add: accounted_def liveTotal_def Len_def noNilIdle_def openHasFactory_def
        exPool_def exConfig_def)
  have pr2: "proper (CallReturn (Some 0) None) ?pc" by (simp add: isBorrowed_def)
  have f: "conns ?pc = None" "MaxCap (config ?pc) = 1" by (simp_all add: exPool_def exConfig_def)
  note t = C1_accounting_amended [of dialConn "exConfig 1 2" "exPool 1 2" "exPool 1 2"
      "CallGet (Some 5, None)"]
  note u = C1_accounting_amended [of dialConn "exConfig 1 2" "exPool 1 2" ?pc
      "CallReturn (Some 0) None"]
  from t new ok have acc1: "accounted (exPool 1 2)" by blast
  with t pr opn have acc1': "accounted (exec (CallGet (Some 5, None)) (exPool 1 2))" by blast
  from u acc2 pr2 f have "liveTotal (exec (CallReturn (Some 0) None) ?pc) = 0" by simp
  with new ok acc1 pr opn acc1' acc2 pr2 show ?thesis by simp
qed

text \<open>
  C2, as stated, fails. On the pool built from \<open>InitCap = 0\<close>, \<open>MaxCap = 1\<close>, a
  \<open>BlockingGet\<close> whose factory call fails returns the factory's error with the token back
  in place and \<open>createNum\<close> raised from 0 to 1: the pool is not as it was before the call.
  \<open>Get\<close> with the same factory result raises \<open>createNum\<close> as well and does not return.
\<close>

theorem C2_counterexample:
  "New dialConn (exConfig 0 1) = Done (Inr (exPool 0 1))
   \<and> BlockingGet RecvSpace None (None, Some ''connection refused'') (exPool 0 1) =
       (Done (Inl (Foreign ''connection refused'')), (exPool 0 1)\<lparr>createNum := 1\<rparr>)
   \<and> createNum (exPool 0 1) = 0
   \<and> snd (BlockingGet RecvSpace None (None, Some ''connection refused'') (exPool 0 1))
       \<noteq> exPool 0 1
   \<and> Get (None, Some ''connection refused'') (exPool 0 1) =
       (Panicked, (exPool 0 1)\<lparr>createNum := 1\<rparr>)"
  by (simp add: New_def newPool_def chanCap_def addRemainingSpace_def exPool_def exConfig_def
      BlockingGet_def selected_def canProceed_def createBlocking_def Get_def Let_def
      maxChanCap_small incr_small)

text \<open>
  C2, amended. When the factory call of an acquisition fails and the call returns the
  factory's error, the token taken in that acquisition is free again and the idle channel and
  the idle counter are untouched, but the increment of \<open>createNum\<close> stays: the pool differs
  from the pool before the call in \<open>createNum\<close>, to which \<open>++\<close> has been applied (one more,
  short of the wrap-around at the largest \<open>int\<close>). This holds for \<open>BlockingGet\<close> whenever
  its \<open>select\<close> receives a token, and for \<open>Get\<close> on an empty idle channel when the
  incremented counter does not exceed \<open>MaxCap\<close> and the factory returned a connection value
  with its error.
\<close>

theorem C2_factory_failure_amended:
  assumes "conns p = Some q" and "factory p" and "remainingSpace p \<le> chanCap p"
  shows "(selected sel ctx q p = Some RecvSpace \<longrightarrow>
       BlockingGet sel ctx (conn, Some e) p =
         (Done (Inl (Foreign e)), p\<lparr>createNum := incr (createNum p)\<rparr>))
    \<and> (q = [] \<and> incr (createNum p) \<le> MaxCap (config p) \<and> 0 < remainingSpace p \<longrightarrow>
       Get (Some c, Some e) p = (Done (Inl (Foreign e)), p\<lparr>createNum := incr (createNum p)\<rparr>))
    \<and> incr (createNum p) \<noteq> createNum p
    \<and> (minInt \<le> createNum p \<and> createNum p < maxInt \<longrightarrow> incr (createNum p) = createNum p + 1)"
proof (intro conjI impI)
  assume s: "selected sel ctx q p = Some RecvSpace"
  from selected_canProceed [OF s] have pos: "0 < remainingSpace p" by (simp add: canProceed_def)
  have "BlockingGet sel ctx (conn, Some e) p = createBlocking (conn, Some e) p"
    using assms(1) s by (rule BlockingGet_space)
  also have "\<dots> = (Done (Inl (Foreign e)), p\<lparr>createNum := incr (createNum p)\<rparr>)"
    using assms(2) pos assms(3) by (rule createBlocking_err)
  finally show "BlockingGet sel ctx (conn, Some e) p =
         (Done (Inl (Foreign e)), p\<lparr>createNum := incr (createNum p)\<rparr>)" .
next
  assume a: "q = [] \<and> incr (createNum p) \<le> MaxCap (config p) \<and> 0 < remainingSpace p"
  with assms show "Get (Some c, Some e) p =
      (Done (Inl (Foreign e)), p\<lparr>createNum := incr (createNum p)\<rparr>)"
    by (simp add: Get_def Let_def removeRemainingSpace_def addRemainingSpace_def chanCap_def;
        arith)
next
  show "incr (createNum p) \<noteq> createNum p" by (rule incr_neq)
next
  assume "minInt \<le> createNum p \<and> createNum p < maxInt"
  then show "incr (createNum p) = createNum p + 1" by (simp add: incr_plain)
qed

text \<open>
  C2 (amended) at the pool built from \<open>InitCap = 0\<close>, \<open>MaxCap = 1\<close>: the idle channel is
  empty and the context is not done, so the \<open>select\<close> of \<open>BlockingGet\<close> receives the token.
\<close>

theorem C2_factory_failure_amended_witness:
  "conns (exPool 0 1) = Some [] \<and> factory (exPool 0 1)
   \<and> remainingSpace (exPool 0 1) \<le> chanCap (exPool 0 1)
   \<and> selected RecvConn None [] (exPool 0 1) = Some RecvSpace
   \<and> BlockingGet RecvConn None (None, Some ''connection refused'') (exPool 0 1) =
       (Done (Inl (Foreign ''connection refused'')), (exPool 0 1)\<lparr>createNum := 1\<rparr>)
   \<and> Get (Some 3, Some ''handshake failed'') (exPool 0 1) =
       (Done (Inl (Foreign ''handshake failed'')), (exPool 0 1)\<lparr>createNum := 1\<rparr>)"
proof -
  have h1: "conns (exPool 0 1) = Some []" by (simp add: exPool_def)
  have h2: "factory (exPool 0 1)" by (simp add: exPool_def)
  have h3: "remainingSpace (exPool 0 1) \<le> chanCap (exPool 0 1)"
    by (simp add: exPool_def exConfig_def chanCap_def)
  have s: "selected RecvConn None [] (exPool 0 1) = Some RecvSpace"
    by (simp add: selected_def canProceed_def exPool_def)
  have f: "createNum (exPool 0 1) = 0" "MaxCap (config (exPool 0 1)) = 1"
    "remainingSpace (exPool 0 1) = 1"
    by (simp_all add: exPool_def exConfig_def)
  note t = C2_factory_failure_amended [OF h1 h2 h3, of RecvConn None None
      "''connection refused''" 3]
  note u = C2_factory_failure_amended [OF h1 h2 h3, of RecvConn None None
      "''handshake failed''" 3]
  from t [THEN conjunct1] u [THEN conjunct2, THEN conjunct1] h1 h2 h3 s show ?thesis
    by (simp add: f incr_small)
qed

text \<open>
  C3. \<open>Return\<close> on an open pool whose idle channel is full closes the connection it was
  given and releases no token: the idle channel, the idle counter and the token count are
  what they were, and the connection is on the log of closed connections.
\<close>

theorem C3_Return_full_queue:
  assumes "conns p = Some q" and "chanCap p \<le> length q"
  shows "Return (Some c) r p = (Done (connErr r), giveBack c (closeConn c p))
    \<and> conns (snd (Return (Some c) r p)) = conns p
    \<and> Len (snd (Return (Some c) r p)) = Len p
    \<and> Idle (snd (Return (Some c) r p)) = Idle p
    \<and> remainingSpace (snd (Return (Some c) r p)) = remainingSpace p
    \<and> closedLog (snd (Return (Some c) r p)) = c # closedLog p"
  using assms by (simp add: Return_def giveBack_def closeConn_def Len_def Idle_def)

text \<open>
  C3 at a concrete pool: the pool built from \<open>InitCap = 1\<close>, \<open>MaxCap = 1\<close> has a full
  idle channel, and \<open>Return\<close> of connection 7 leaves it as it is.
\<close>

theorem C3_Return_full_queue_witness:
  "conns (exPool 1 1) = Some [Some 0] \<and> chanCap (exPool 1 1) \<le> length [Some (0::nat)]
   \<and> Return (Some 7) None (exPool 1 1) = (Done None, (exPool 1 1)\<lparr>closedLog := [7]\<rparr>)
   \<and> remainingSpace (snd (Return (Some 7) None (exPool 1 1))) = 0
   \<and> Idle (snd (Return (Some 7) None (exPool 1 1))) = 1"
  using C3_Return_full_queue [of "exPool 1 1" "[Some 0]" 7 None]
  by (simp add: exPool_def exConfig_def chanCap_def giveBack_def closeConn_def connErr_def
      Idle_def)

text \<open>
  C4. The ordering \<open>0 \<le> Idle() \<le> Len() \<le> MaxCap\<close> does not survive \<open>Close\<close>. On an open
  pool \<open>idleConns\<close> is the length of the idle channel: \<open>New\<close> sets it so, and \<open>Get\<close>,
  \<open>BlockingGet\<close> and \<open>Return\<close> change both together (\<open>New_idleMirrors\<close>,
  \<open>exec_idleMirrors\<close>, \<open>idleMirrors_order\<close>). \<open>Close\<close> empties the idle channel and leaves
  \<open>idleConns\<close> as it was. For the pool that \<open>New\<close> builds from \<open>InitCap = 1\<close>,
  \<open>MaxCap = 1\<close>, \<open>Idle()\<close> and \<open>Len()\<close> are both 1 before \<open>Close\<close>; after it \<open>Idle()\<close> is
  still 1 and \<open>Len()\<close> is 0.
\<close>

theorem C4_Idle_after_Close:
  "New dialConn (exConfig 1 1) = Done (Inr (exPool 1 1))
   \<and> Idle (exPool 1 1) = 1 \<and> Len (exPool 1 1) = 1
   \<and> Close (exPool 1 1) =
       (Done (), (exPool 1 1)\<lparr>conns := None, factory := False, remainingSpace := 1, closedLog := [0]\<rparr>)
   \<and> Idle (snd (Close (exPool 1 1))) = 1
   \<and> Len (snd (Close (exPool 1 1))) = 0"
  by (simp add: New_def exConfig_def exPool_def newPool_def dialConn_def chanCap_def
      addRemainingSpace_def removeRemainingSpace_def sendConn_def Close_def closeConn_def
      Idle_def Len_def maxChanCap_small)

text \<open>
  C6. After \<open>Close\<close>, and after any further calls on the pool, \<open>Get\<close> and \<open>BlockingGet\<close>
  return \<open>ErrNil\<close>, hand out no connection and leave the pool as it is.
\<close>

theorem C6_closed_pool_refuses:
  "Get fr (execs cs (snd (Close p))) = (Done (Inl ErrNil), execs cs (snd (Close p)))
   \<and> BlockingGet sel ctx fr (execs cs (snd (Close p))) =
       (Done (Inl ErrNil), execs cs (snd (Close p)))"
proof -
  have "conns (execs cs (snd (Close p))) = None"
    by (rule execs_closed) (simp add: Close_closed)
  then show ?thesis by (simp add: Get_def BlockingGet_def)
qed

text \<open>
  C6 at a concrete pool: \<open>Close\<close> of the pool built from \<open>InitCap = 1\<close>, \<open>MaxCap = 1\<close>,
  then a \<open>Return\<close>, then the two acquisitions.
\<close>

theorem C6_closed_pool_refuses_witness:
  "fst (Get (Some 5, None) (execs [CallReturn (Some 0) None] (snd (Close (exPool 1 1)))))
     = Done (Inl ErrNil)
   \<and> fst (BlockingGet RecvSpace None (Some 5, None)
           (execs [CallReturn (Some 0) None] (snd (Close (exPool 1 1)))))
     = Done (Inl ErrNil)"
  using C6_closed_pool_refuses [of "(Some 5, None)" "[CallReturn (Some 0) None]" "exPool 1 1"
      RecvSpace None]
  by simp

text \<open>
  C7. \<open>Return\<close> with a nil connection does not return the rejection error: building the
  log entry calls \<open>conn.RemoteAddr()\<close> on the nil interface, which panics before the
  \<open>return\<close> statement. The pool is untouched.
\<close>

theorem C7_Return_nil_panics:
  "Return None r p = (Panicked, p)"
  by (simp add: Return_def)

text \<open>
  C9. \<open>Close\<close> on a pool whose idle channel holds the connections \<open>cs\<close> closes each of
  them, in order, and sends one token for each; it leaves the pool with a nil channel and a
  nil factory. A second \<open>Close\<close> finds the nil channel, returns and changes nothing.
\<close>

theorem C9_Close_idempotent:
  assumes "conns p = Some (map Some cs)"
    and "remainingSpace p + length cs \<le> chanCap p"
  shows "Close p =
      (Done (), p\<lparr>conns := None, factory := False,
                  remainingSpace := remainingSpace p + length cs,
                  closedLog := rev cs @ closedLog p\<rparr>)
    \<and> Close (snd (Close p)) = (Done (), snd (Close p))"
proof -
  let ?p1 = "p\<lparr>conns := None, factory := False\<rparr>"
  from assms(2) have "remainingSpace ?p1 + length cs \<le> chanCap ?p1"
    by (simp add: chanCap_def)
  from drain_all [OF this] assms(1) have first: "Close p =
      (Done (), p\<lparr>conns := None, factory := False,
                  remainingSpace := remainingSpace p + length cs,
                  closedLog := rev cs @ closedLog p\<rparr>)"
    by (simp add: Close_def)
  have "Close (snd (Close p)) = (Done (), snd (Close p))"
    by (rule Close_again) (simp_all add: Close_closed)
  with first show ?thesis by simp
qed

text \<open>
  C9 at the pool built from \<open>InitCap = 2\<close>, \<open>MaxCap = 3\<close>: both idle connections are
  closed and the token count goes from 1 to 3.
\<close>

theorem C9_Close_idempotent_witness:
  "conns (exPool 2 3) = Some (map Some [0, 1])
   \<and> remainingSpace (exPool 2 3) + length [0::nat, 1] \<le> chanCap (exPool 2 3)
   \<and> Close (exPool 2 3) =
       (Done (), (exPool 2 3)\<lparr>conns := None, factory := False, remainingSpace := 3,
                              closedLog := [1, 0]\<rparr>)
   \<and> Close (snd (Close (exPool 2 3))) = (Done (), snd (Close (exPool 2 3)))"
proof -
  have h1: "conns (exPool 2 3) = Some (map Some [0, 1])"
    by (simp add: exPool_def upt_rec)
  have h2: "remainingSpace (exPool 2 3) + length [0::nat, 1] \<le> chanCap (exPool 2 3)"
    by (simp add: exPool_def exConfig_def chanCap_def)
  have f: "remainingSpace (exPool 2 3) = 1" "closedLog (exPool 2 3) = []"
    by (simp_all add: exPool_def)
  note t = C9_Close_idempotent [OF h1 h2]
  from t [THEN conjunct1] t [THEN conjunct2] h1 h2 show ?thesis
    by (simp add: f)
qed

text \<open>
  C5. \<open>Get\<close> on an open pool with an empty idle channel applies \<open>++\<close> to \<open>createNum\<close>
  first, and when the incremented counter exceeds \<open>MaxCap\<close> it returns the error
  "More than MaxCap" with the increment kept (\<open>Get_over_cap\<close>). Otherwise it calls the
  factory. With a factory that succeeds it then takes one token and returns the wrapped
  connection (\<open>Get_creates\<close>), and on the pool built from \<open>InitCap = 0\<close>, \<open>MaxCap = 2\<close> two
  calls return connections and a third returns the error (\<open>Get_two_then_over_cap\<close>). With a
  factory that fails as \<open>net.Dial\<close> does, with a nil connection and an error, \<open>Get\<close> does not
  take the token: its log entry calls \<open>conn.RemoteAddr()\<close> on the nil connection before
  \<open>err\<close> is looked at, so the call panics with the token count as it was and the error is
  not returned. \<open>BlockingGet\<close>, which looks at \<open>err\<close> first, returns the error for the same
  factory result.
\<close>

theorem C5_Get_refused_dial_panics:
  "New dialConn (exConfig 0 2) = Done (Inr (exPool 0 2))
   \<and> conns (exPool 0 2) = Some []
   \<and> incr (createNum (exPool 0 2)) \<le> MaxCap (config (exPool 0 2))
   \<and> Get (None, Some ''connection refused'') (exPool 0 2) =
       (Panicked, (exPool 0 2)\<lparr>createNum := 1\<rparr>)
   \<and> remainingSpace (snd (Get (None, Some ''connection refused'') (exPool 0 2))) =
       remainingSpace (exPool 0 2)
   \<and> BlockingGet RecvSpace None (None, Some ''connection refused'') (exPool 0 2) =
       (Done (Inl (Foreign ''connection refused'')), (exPool 0 2)\<lparr>createNum := 1\<rparr>)"
  by (simp add: New_def newPool_def chanCap_def addRemainingSpace_def exPool_def exConfig_def
      BlockingGet_def selected_def canProceed_def createBlocking_def Get_def Let_def
      maxChanCap_small incr_small eval_nat_numeral)

text \<open>
  C8. Let \<open>g\<close> wrap the borrowed connection \<open>c\<close>, in a pool whose idle connections,
  borrowed connections and free tokens together do not exceed \<open>MaxCap\<close>. \<open>MarkUnusable\<close>
  sets the flag, and \<open>Close\<close> of the marked wrapper sends one token and closes \<open>c\<close>: the
  idle channel and the idle counter are untouched, the token count is one more. On an open
  pool a \<open>BlockingGet\<close> that receives that token then returns a new connection. When the
  wrapper is not marked, \<open>Close\<close> is \<open>Return\<close> of \<open>c\<close>.
\<close>

theorem C8_unusable_Close_releases_token:
  assumes "Conn g = Some c" and "c \<in> set (borrowed p)" and "liveTotal p \<le> MaxCap (config p)"
  shows "MarkUnusable g = Done (g\<lparr>unusable := True\<rparr>)
    \<and> GConn_Close (g\<lparr>unusable := True\<rparr>) r p =
        (Done (connErr r),
         p\<lparr>remainingSpace := Suc (remainingSpace p), closedLog := c # closedLog p,
           borrowed := remove1 c (borrowed p)\<rparr>)
    \<and> Idle (snd (GConn_Close (g\<lparr>unusable := True\<rparr>) r p)) = Idle p
    \<and> Len (snd (GConn_Close (g\<lparr>unusable := True\<rparr>) r p)) = Len p
    \<and> (conns p \<noteq> None \<and> factory p \<longrightarrow>
         BlockingGet RecvSpace ctx (Some c', None)
            (snd (GConn_Close (g\<lparr>unusable := True\<rparr>) r p)) =
         (Done (Inr \<lparr>Conn = Some c', unusable = False\<rparr>),
          p\<lparr>createNum := incr (createNum p), closedLog := c # closedLog p,
            borrowed := c' # remove1 c (borrowed p)\<rparr>))
    \<and> (\<not> unusable g \<longrightarrow> GConn_Close g r p = Return (Some c) r p)"
proof -
  from assms(2,3) have room: "remainingSpace p < chanCap p" by (rule borrowed_room)
  let ?p' = "p\<lparr>remainingSpace := Suc (remainingSpace p), closedLog := c # closedLog p,
           borrowed := remove1 c (borrowed p)\<rparr>"
  from assms(1) have mark: "MarkUnusable g = Done (g\<lparr>unusable := True\<rparr>)"
    by (simp add: MarkUnusable_def)
  from assms(1) room have close: "GConn_Close (g\<lparr>unusable := True\<rparr>) r p = (Done (connErr r), ?p')"
    by (simp add: GConn_Close_def addRemainingSpace_def giveBack_def closeConn_def)
  have again: "BlockingGet RecvSpace ctx (Some c', None) ?p' =
         (Done (Inr \<lparr>Conn = Some c', unusable = False\<rparr>),
          p\<lparr>createNum := incr (createNum p), closedLog := c # closedLog p,
            borrowed := c' # remove1 c (borrowed p)\<rparr>)"
    if "conns p \<noteq> None" "factory p"
  proof -
    from that obtain q where q: "conns ?p' = Some q" by auto
    have "BlockingGet RecvSpace ctx (Some c', None) ?p' = createBlocking (Some c', None) ?p'"
      using q by (rule BlockingGet_space) (simp add: selected_RecvSpace)
    also have "\<dots> = (Done (Inr \<lparr>Conn = Some c', unusable = False\<rparr>),
          ?p'\<lparr>remainingSpace := remainingSpace ?p' - 1, createNum := incr (createNum ?p'),
            borrowed := c' # borrowed ?p'\<rparr>)"
      using that by (intro createBlocking_ok) simp_all
    finally show ?thesis by simp
  qed
  from assms(1) have usable: "GConn_Close g r p = Return (Some c) r p" if "\<not> unusable g"
    using that by (simp add: GConn_Close_def)
  from mark close again usable show ?thesis
    by (simp add: Idle_def Len_def)
qed

text \<open>
  C8 at the pool built from \<open>InitCap = 0\<close>, \<open>MaxCap = 1\<close> after one \<open>Get\<close>: the only token
  is in use, the marked wrapper's \<open>Close\<close> brings it back, and \<open>BlockingGet\<close> takes it.
\<close>

theorem C8_unusable_Close_releases_token_witness:
  "Get (Some 0, None) (exPool 0 1) =
     (Done (Inr \<lparr>Conn = Some 0, unusable = False\<rparr>),
      (exPool 0 1)\<lparr>createNum := 1, remainingSpace := 0, borrowed := [0]\<rparr>)
   \<and> MarkUnusable \<lparr>Conn = Some 0, unusable = False\<rparr> = Done \<lparr>Conn = Some 0, unusable = True\<rparr>
   \<and> GConn_Close \<lparr>Conn = Some 0, unusable = True\<rparr> None
        ((exPool 0 1)\<lparr>createNum := 1, remainingSpace := 0, borrowed := [0]\<rparr>) =
       (Done None, (exPool 0 1)\<lparr>createNum := 1, remainingSpace := 1, closedLog := [0]\<rparr>)
   \<and> BlockingGet RecvSpace None (Some 5, None)
        (snd (GConn_Close \<lparr>Conn = Some 0, unusable = True\<rparr> None
           ((exPool 0 1)\<lparr>createNum := 1, remainingSpace := 0, borrowed := [0]\<rparr>))) =
       (Done (Inr \<lparr>Conn = Some 5, unusable = False\<rparr>),
        (exPool 0 1)\<lparr>createNum := 2, remainingSpace := 0, closedLog := [0], borrowed := [5]\<rparr>)
   \<and> GConn_Close \<lparr>Conn = Some 0, unusable = False\<rparr> None
        ((exPool 0 1)\<lparr>createNum := 1, remainingSpace := 0, borrowed := [0]\<rparr>) =
       Return (Some 0) None ((exPool 0 1)\<lparr>createNum := 1, remainingSpace := 0, borrowed := [0]\<rparr>)"
proof -
  let ?p = "(exPool 0 1)\<lparr>createNum := 1, remainingSpace := 0, borrowed := [0]\<rparr>"
  have f: "conns (exPool 0 1) = Some []" "factory (exPool 0 1)" "createNum (exPool 0 1) = 0"
    "remainingSpace (exPool 0 1) = 1" "borrowed (exPool 0 1) = []" "closedLog (exPool 0 1) = []"
    "MaxCap (config (exPool 0 1)) = 1"
    by (simp_all add: exPool_def exConfig_def)
  have get: "Get (Some 0, None) (exPool 0 1) =
     (Done (Inr \<lparr>Conn = Some 0, unusable = False\<rparr>), ?p)"
    using Get_creates [of "exPool 0 1" 0] by (simp add: f incr_small)
  have h1: "Conn \<lparr>Conn = Some 0, unusable = False\<rparr> = Some 0" by simp
  have h2: "0 \<in> set (borrowed ?p)" by simp
  have h3: "liveTotal ?p \<le> MaxCap (config ?p)" by (simp add: liveTotal_def Len_def f)
  note t = C8_unusable_Close_releases_token [OF h1 h2 h3, of None None 5]
  from t [THEN conjunct1] t [THEN conjunct2, THEN conjunct1]
    t [THEN conjunct2, THEN conjunct2, THEN conjunct2, THEN conjunct2] get
  show ?thesis by (simp add: f connErr_def incr_small)
qed

text \<open>
  C10, as stated, fails. On the pool built from \<open>InitCap = 0\<close>, \<open>MaxCap = 1\<close>, a \<open>Get\<close>, the
  \<open>Close\<close> of its wrapper marked unusable, and then \<open>maxInt - 1\<close> calls of \<open>Get\<close>, each of
  which returns "More than MaxCap", leave \<open>createNum\<close> at \<open>maxInt\<close> with one token free.
  The next \<open>Get\<close> wraps \<open>createNum\<close> around to \<open>minInt\<close>, which does not exceed \<open>MaxCap\<close>,
  and returns a connection: \<open>createNum\<close> has gone down, and a \<open>Get\<close> on an empty idle channel
  has succeeded after \<open>createNum\<close> had reached \<open>MaxCap\<close>.
\<close>

theorem C10_counterexample:
  "New dialConn (exConfig 0 1) = Done (Inr (exPool 0 1))
   \<and> execs (CallGet (Some 0, None) # CallGConnClose \<lparr>Conn = Some 0, unusable = True\<rparr> None
             # replicate (nat (maxInt - 1)) (CallGet (Some 9, None))) (exPool 0 1) =
       (exPool 0 1)\<lparr>createNum := maxInt, closedLog := [0]\<rparr>
   \<and> conns ((exPool 0 1)\<lparr>createNum := maxInt, closedLog := [0]\<rparr>) = Some []
   \<and> MaxCap (config ((exPool 0 1)\<lparr>createNum := maxInt, closedLog := [0]\<rparr>))
       \<le> createNum ((exPool 0 1)\<lparr>createNum := maxInt, closedLog := [0]\<rparr>)
   \<and> Get (Some 9, None) ((exPool 0 1)\<lparr>createNum := maxInt, closedLog := [0]\<rparr>) =
       (Done (Inr \<lparr>Conn = Some 9, unusable = False\<rparr>),
        (exPool 0 1)\<lparr>createNum := minInt, remainingSpace := 0, closedLog := [0],
                     borrowed := [9]\<rparr>)
   \<and> createNum (exec (CallGet (Some 9, None))
         ((exPool 0 1)\<lparr>createNum := maxInt, closedLog := [0]\<rparr>))
       < createNum ((exPool 0 1)\<lparr>createNum := maxInt, closedLog := [0]\<rparr>)"
proof -
  let ?g = "\<lparr>Conn = Some 0, unusable = True\<rparr>"
  let ?p1 = "(exPool 0 1)\<lparr>createNum := 1, closedLog := [0]\<rparr>"
  let ?P = "(exPool 0 1)\<lparr>createNum := maxInt, closedLog := [0]\<rparr>"
  have f: "conns (exPool 0 1) = Some []" "factory (exPool 0 1)" "createNum (exPool 0 1) = 0"
    "remainingSpace (exPool 0 1) = 1" "borrowed (exPool 0 1) = []" "closedLog (exPool 0 1) = []"
    "MaxCap (config (exPool 0 1)) = 1"
    by (simp_all add: exPool_def exConfig_def)
  have new: "New dialConn (exConfig 0 1) = Done (Inr (exPool 0 1))"
    by (simp add: New_def newPool_def chanCap_def addRemainingSpace_def exPool_def exConfig_def
        maxChanCap_small)
  have two: "execs [CallGet (Some 0, None), CallGConnClose ?g None] (exPool 0 1) = ?p1"
    by (simp add: execs_def Get_def Let_def removeRemainingSpace_def handOut_Some
        GConn_Close_def addRemainingSpace_def chanCap_def giveBack_def closeConn_def f
        incr_small)
  have "execs (replicate (nat (maxInt - 1)) (CallGet (Some 9, None))) ?p1 =
      ?p1\<lparr>createNum := createNum ?p1 + int (nat (maxInt - 1))\<rparr>"
    by (rule Get_over_cap_repeat) (simp_all add: f minInt_def maxInt_def)
  then have many: "execs (replicate (nat (maxInt - 1)) (CallGet (Some 9, None))) ?p1 = ?P"
    by (simp add: maxInt_def)
  have all: "execs (CallGet (Some 0, None) # CallGConnClose ?g None
             # replicate (nat (maxInt - 1)) (CallGet (Some 9, None))) (exPool 0 1) = ?P"
    using two many by (simp add: execs_def)
  have le: "MaxCap (config ?P) \<le> createNum ?P" by (simp add: f maxInt_def)
  have "incr (createNum ?P) \<le> MaxCap (config ?P)"
    by (simp add: f incr_maxInt minInt_def)
  then have get: "Get (Some 9, None) ?P =
       (Done (Inr \<lparr>Conn = Some 9, unusable = False\<rparr>),
        (exPool 0 1)\<lparr>createNum := minInt, remainingSpace := 0, closedLog := [0],
                     borrowed := [9]\<rparr>)"
    using Get_creates [of ?P 9] by (simp add: f incr_maxInt)
  then have "createNum (exec (CallGet (Some 9, None)) ?P) < createNum ?P"
    by (simp add: minInt_def maxInt_def)
  with new all le get show ?thesis by (simp add: f)
qed

text \<open>
  C10, amended. \<open>Return\<close>, \<open>Close\<close> and the wrapper's \<open>Close\<close> leave \<open>createNum\<close> as it is,
  \<open>New\<close> sets it to \<open>InitCap\<close>, and \<open>Get\<close> and \<open>BlockingGet\<close> leave it or apply \<open>++\<close> to it,
  which is one more unless the counter is at the largest \<open>int\<close>: below that value no call
  lowers \<open>createNum\<close>. So once \<open>createNum\<close> has reached \<open>MaxCap\<close>, after any further calls
  that are too few to take the counter to the largest \<open>int\<close>, a \<open>Get\<close> that finds the pool
  open with an empty idle channel returns the error "More than MaxCap", however many
  tokens are free. \<open>BlockingGet\<close> does not look at \<open>createNum\<close>: on an open pool with an
  empty idle channel, a free token and a context that is not done, it returns a new
  connection when the factory succeeds.
\<close>

theorem C10_createNum_below_wrap:
  "createNum (exec (CallReturn conn r) p) = createNum p
   \<and> createNum (exec CallClose p) = createNum p
   \<and> createNum (exec (CallGConnClose g r) p) = createNum p
   \<and> (createNum (exec (CallGet fr) p) = incr (createNum p)
       \<or> createNum (exec (CallGet fr) p) = createNum p)
   \<and> (createNum (exec (CallBlockingGet sel ctx fr) p) = incr (createNum p)
       \<or> createNum (exec (CallBlockingGet sel ctx fr) p) = createNum p)
   \<and> (minInt \<le> createNum p \<and> createNum p < maxInt \<longrightarrow>
        incr (createNum p) = createNum p + 1 \<and> createNum p \<le> createNum (exec cl p))
   \<and> (New dial pc = Done (Inr p0) \<longrightarrow> createNum p0 = InitCap pc)
   \<and> (0 \<le> InitCap pc \<and> InitCap pc \<le> MaxCap pc \<and> MaxCap pc \<le> maxChanCap
       \<and> list_all (\<lambda>j. snd (dial j) = None) [0..<nat (InitCap pc)] \<longrightarrow>
        (\<exists>p1. New dial pc = Done (Inr p1) \<and> createNum p1 = InitCap pc))
   \<and> (MaxCap (config p) \<le> createNum p \<and> minInt \<le> createNum p
       \<and> createNum p + int (length cs) < maxInt \<and> conns (execs cs p) = Some [] \<longrightarrow>
        Get fr (execs cs p) =
          (Done (Inl ErrMoreThanMaxCap), (execs cs p)\<lparr>createNum := createNum (execs cs p) + 1\<rparr>))
   \<and> (conns p = Some [] \<and> factory p \<and> 0 < remainingSpace p \<longrightarrow>
        BlockingGet sel None (Some c, None) p =
          (Done (Inr \<lparr>Conn = Some c, unusable = False\<rparr>),
           p\<lparr>remainingSpace := remainingSpace p - 1, createNum := incr (createNum p),
             borrowed := c # borrowed p\<rparr>))"
proof -
  have step: "createNum (exec cl' p) = incr (createNum p) \<or> createNum (exec cl' p) = createNum p"
    for cl'
    using exec_createNum_step [of cl' p] by blast
  have below: "incr (createNum p) = createNum p + 1 \<and> createNum p \<le> createNum (exec cl p)"
    if "minInt \<le> createNum p" "createNum p < maxInt"
    using exec_createNum_bounds [OF that, of cl] incr_plain [OF that] by simp
  have new: "createNum p0 = InitCap pc" if "New dial pc = Done (Inr p0)"
    using New_Done [OF that] by simp
  have new_ok: "\<exists>p1. New dial pc = Done (Inr p1) \<and> createNum p1 = InitCap pc"
    if "0 \<le> InitCap pc" "InitCap pc \<le> MaxCap pc" "MaxCap pc \<le> maxChanCap"
      "list_all (\<lambda>j. snd (dial j) = None) [0..<nat (InitCap pc)]"
    using New_ok [OF that] by simp
  have lasting: "Get fr (execs cs p) =
      (Done (Inl ErrMoreThanMaxCap), (execs cs p)\<lparr>createNum := createNum (execs cs p) + 1\<rparr>)"
    if "MaxCap (config p) \<le> createNum p" "minInt \<le> createNum p"
      "createNum p + int (length cs) < maxInt" "conns (execs cs p) = Some []"
  proof -
    from that(3) have "createNum p + int (length cs) \<le> maxInt" by simp
    from execs_createNum_bounds [OF that(2) this]
    have b: "createNum p \<le> createNum (execs cs p)"
      "createNum (execs cs p) \<le> createNum p + int (length cs)"
      by simp_all
    with that have i: "incr (createNum (execs cs p)) = createNum (execs cs p) + 1"
      by (intro incr_plain) simp_all
    from that(1) b(1) have "MaxCap (config (execs cs p)) < incr (createNum (execs cs p))"
      by (simp add: execs_config i)
    from Get_over_cap [OF that(4) this] i show ?thesis by simp
  qed
  have blocking: "BlockingGet sel None (Some c, None) p =
          (Done (Inr \<lparr>Conn = Some c, unusable = False\<rparr>),
           p\<lparr>remainingSpace := remainingSpace p - 1, createNum := incr (createNum p),
             borrowed := c # borrowed p\<rparr>)"
    if "conns p = Some []" "factory p" "0 < remainingSpace p"
  proof -
    have "BlockingGet sel None (Some c, None) p = createBlocking (Some c, None) p"
      using that(1) by (rule BlockingGet_space) (simp add: selected_only_space that(3))
    with that show ?thesis by (simp add: createBlocking_ok)
  qed
  from step [of "CallGet fr"] step [of "CallBlockingGet sel ctx fr"] below new new_ok lasting
    blocking
  show ?thesis by (simp only: exec_createNum_same) blast
qed

text \<open>
  C10 (amended) at the pool built from \<open>InitCap = 0\<close>, \<open>MaxCap = 1\<close> after one \<open>Get\<close>, where
  \<open>createNum = MaxCap\<close>: the borrowed connection is destroyed and its token released, and
  then \<open>Get\<close> still fails while \<open>BlockingGet\<close> succeeds.
\<close>

theorem C10_createNum_below_wrap_witness:
  "New dialConn (exConfig 0 1) = Done (Inr (exPool 0 1))
   \<and> createNum (exPool 0 1) = InitCap (exConfig 0 1)
   \<and> MaxCap (config ((exPool 0 1)\<lparr>createNum := 1, remainingSpace := 0, borrowed := [0]\<rparr>))
     \<le> createNum ((exPool 0 1)\<lparr>createNum := 1, remainingSpace := 0, borrowed := [0]\<rparr>)
   \<and> execs [CallGConnClose \<lparr>Conn = Some 0, unusable = True\<rparr> None]
        ((exPool 0 1)\<lparr>createNum := 1, remainingSpace := 0, borrowed := [0]\<rparr>) =
       (exPool 0 1)\<lparr>createNum := 1, remainingSpace := 1, closedLog := [0]\<rparr>
   \<and> Get (Some 5, None) ((exPool 0 1)\<lparr>createNum := 1, remainingSpace := 1, closedLog := [0]\<rparr>) =
       (Done (Inl ErrMoreThanMaxCap),
        (exPool 0 1)\<lparr>createNum := 2, remainingSpace := 1, closedLog := [0]\<rparr>)
   \<and> BlockingGet RecvConn None (Some 5, None)
        ((exPool 0 1)\<lparr>createNum := 1, remainingSpace := 1, closedLog := [0]\<rparr>) =
       (Done (Inr \<lparr>Conn = Some 5, unusable = False\<rparr>),
        (exPool 0 1)\<lparr>createNum := 2, remainingSpace := 0, closedLog := [0], borrowed := [5]\<rparr>)"
proof -
  let ?p = "(exPool 0 1)\<lparr>createNum := 1, remainingSpace := 0, borrowed := [0]\<rparr>"
  let ?p' = "(exPool 0 1)\<lparr>createNum := 1, remainingSpace := 1, closedLog := [0]\<rparr>"
  let ?cs = "[CallGConnClose \<lparr>Conn = Some 0, unusable = True\<rparr> None]"
  have f: "conns (exPool 0 1) = Some []" "factory (exPool 0 1)" "createNum (exPool 0 1) = 0"
    "remainingSpace (exPool 0 1) = 1" "borrowed (exPool 0 1) = []" "closedLog (exPool 0 1) = []"
    "MaxCap (config (exPool 0 1)) = 1" "InitCap (exConfig 0 1) = 0"
    by (simp_all add: exPool_def exConfig_def)
  have new: "New dialConn (exConfig 0 1) = Done (Inr (exPool 0 1))"
    by (simp add: New_def newPool_def chanCap_def addRemainingSpace_def exPool_def exConfig_def
        maxChanCap_small)
  have e: "execs ?cs ?p = ?p'"
    by (simp add: execs_def GConn_Close_def addRemainingSpace_def chanCap_def giveBack_def
        closeConn_def f)
  have r: "minInt \<le> 1" "1 + 1 < maxInt" by (simp_all add: minInt_def maxInt_def)
  note t = C10_createNum_below_wrap [of None None ?p "\<lparr>Conn = Some 0, unusable = True\<rparr>"
      "(Some 5, None)" RecvConn None CallClose dialConn "exConfig 0 1" "exPool 0 1" ?cs 5]
  note u = C10_createNum_below_wrap [of None None ?p' "\<lparr>Conn = Some 0, unusable = True\<rparr>"
      "(Some 5, None)" RecvConn None CallClose dialConn "exConfig 0 1" "exPool 0 1" "[]" 5]
  from t new have c0: "createNum (exPool 0 1) = InitCap (exConfig 0 1)" by blast
  from t e r have g: "Get (Some 5, None) ?p' =
       (Done (Inl ErrMoreThanMaxCap),
        (exPool 0 1)\<lparr>createNum := 2, remainingSpace := 1, closedLog := [0]\<rparr>)"
    by (simp add: f)
  from u have b: "BlockingGet RecvConn None (Some 5, None) ?p' =
       (Done (Inr \<lparr>Conn = Some 5, unusable = False\<rparr>),
        (exPool 0 1)\<lparr>createNum := 2, remainingSpace := 0, closedLog := [0], borrowed := [5]\<rparr>)"
    by (simp add: f incr_small)
  from new c0 e g b show ?thesis by (simp add: f)
qed

end
